theory Spec2Isabelle
  imports Main "HOL-Library.Word" "HOL-Library.Signed_Division"
begin

section \<open>Data model of apnsobject.go and apnsservice.go\<close>

text \<open>
  The Go type \<open>int\<close> is modelled as \<open>int\<close>: every integer the code computes is a
  cache index below the cache size, a list length or a backoff of at most 256 seconds,
  so the 64-bit range is never left. Go's \<open>%\<close> truncates towards zero; it is written
  \<open>smod\<close>.
\<close>

datatype statusAPNS = ApnsUnknown | ApnsNoCerts | ApnsCertsFound | ApnsActive

type_synonym byte = "8 word"

record AppCert =
  AppID :: int
  IsDev :: int
  Cert :: "byte list"
  RSAKey :: "byte list"

text \<open>The fields of \<open>apns.Payload\<close> that the package reads.\<close>

record Payload =
  Token :: string
  AlertText :: string
  Category :: string
  ExtraData :: string

text \<open>The zero value of \<open>apns.Payload\<close>, which \<open>make\<close> fills a new slice with.\<close>

definition zeroPayload :: Payload where
  "zeroPayload = \<lparr>Token = [], AlertText = [], Category = [], ExtraData = []\<rparr>"

text \<open>\<open>apns.ConnectionClose\<close>: what the gateway library reports when a socket closes.\<close>

record ConnectionClose =
  Error :: string
  UnsentPayloads :: "Payload list"
  UnsentPayloadBufferOverflow :: bool
  ErrorPayload :: "Payload option"

record APNSConfig =
  CertificateBytes :: "byte list"
  KeyBytes :: "byte list"
  GatewayHost :: string

record logEntry =
  socketID :: int
  message :: string

text \<open>
  A buffered channel is its queue and its capacity. A channel of \<open>struct{}\<close> that is only
  ever closed is a signal. A channel field is \<open>None\<close> while it is nil.
\<close>

record 'a bchan =
  buf :: "'a list"
  cap :: nat

datatype signal = Open | Closed

text \<open>
  What a call does besides returning: it can block forever in this sequential model (a
  send on a full or nil channel with no receiver running) or panic.
\<close>

datatype 'a outcome = Ret 'a | Blocked | Panic

fun bindO :: "'a outcome \<Rightarrow> ('a \<Rightarrow> 'b outcome) \<Rightarrow> 'b outcome" where
  "bindO (Ret x) f = f x"
| "bindO Blocked f = Blocked"
| "bindO Panic f = Panic"

record connectionAPNS =
  appID :: int
  stringID :: string
  fileLog :: "(string \<times> string) list option"
  loggers :: "int \<rightharpoonup> string"
  cert :: "AppCert option"
  cfgAPNS :: "APNSConfig option"
  cfgFeedback :: "APNSConfig option"
  chanDone :: "signal option"
  chanDoneLog :: "signal option"
  chanSend :: "Payload bchan option"
  chanLog :: "logEntry bchan option"
  status :: statusAPNS
  isLogging :: bool

section \<open>Channel operations\<close>

definition chan_send :: "'a bchan option \<Rightarrow> 'a \<Rightarrow> 'a bchan option outcome" where
  "chan_send ch x =
     (case ch of
        None \<Rightarrow> Blocked
      | Some c \<Rightarrow> if length (buf c) < cap c then Ret (Some (c\<lparr>buf := buf c @ [x]\<rparr>)) else Blocked)"

definition chan_close :: "signal option \<Rightarrow> signal option outcome" where
  "chan_close ch = (case ch of None \<Rightarrow> Panic | Some Closed \<Rightarrow> Panic | Some Open \<Rightarrow> Ret (Some Closed))"

text \<open>A receive is ready when the queue has an item; it takes the oldest.\<close>

definition chan_recv :: "'a bchan option \<Rightarrow> ('a \<times> 'a bchan option) option" where
  "chan_recv ch =
     (case ch of
        None \<Rightarrow> None
      | Some c \<Rightarrow> (case buf c of [] \<Rightarrow> None | x # rest \<Rightarrow> Some (x, Some (c\<lparr>buf := rest\<rparr>))))"

section \<open>Submitting and closing (connectionAPNS.pushOne, connectionAPNS.close)\<close>

definition pushOne :: "connectionAPNS \<Rightarrow> Payload \<Rightarrow> connectionAPNS outcome" where
  "pushOne a payload =
     (if status a = ApnsActive
      then bindO (chan_send (chanSend a) payload) (\<lambda>c. Ret (a\<lparr>chanSend := c\<rparr>))
      else Ret a)"

definition close :: "connectionAPNS \<Rightarrow> connectionAPNS outcome" where
  "close a =
     (if status a = ApnsActive
      then bindO (chan_close (chanDone a)) (\<lambda>d. Ret (a\<lparr>chanDone := d, status := ApnsCertsFound\<rparr>))
      else Ret a)"

section \<open>Diagnostics producers (logPrint, logPrintln, logPrintf)\<close>

text \<open>Decimal rendering for the \<open>%d\<close> verb, and \<open>%v\<close> of a bool.\<close>

fun digits :: "nat \<Rightarrow> string" where
  "digits n = (if n < 10 then [''0123456789'' ! n] else digits (n div 10) @ [''0123456789'' ! (n mod 10)])"

definition fmt_int :: "int \<Rightarrow> string" where
  "fmt_int i = (if i < 0 then CHR ''-'' # digits (nat (- i)) else digits (nat i))"

definition fmt_bool :: "bool \<Rightarrow> string" where
  "fmt_bool b = (if b then ''true'' else ''false'')"

text \<open>\<open>fmt.Sprintln\<close> puts a space between operands and a line break at the end.\<close>

fun Sprintln :: "string list \<Rightarrow> string" where
  "Sprintln [] = [CHR 0x0A]"
| "Sprintln [x] = x @ [CHR 0x0A]"
| "Sprintln (x # y # ys) = x @ '' '' @ Sprintln (y # ys)"

definition enqueueLog :: "connectionAPNS \<Rightarrow> logEntry \<Rightarrow> connectionAPNS outcome" where
  "enqueueLog a entry = bindO (chan_send (chanLog a) entry) (\<lambda>c. Ret (a\<lparr>chanLog := c\<rparr>))"

text \<open>\<open>logPrint\<close> and \<open>logPrintf\<close> take the text that \<open>fmt\<close> produced from their arguments.\<close>

definition logPrint :: "connectionAPNS \<Rightarrow> int \<Rightarrow> string \<Rightarrow> connectionAPNS outcome" where
  "logPrint a sid text =
     (if isLogging a then enqueueLog a \<lparr>socketID = sid, message = text\<rparr> else Ret a)"

definition logPrintln :: "connectionAPNS \<Rightarrow> int \<Rightarrow> string list \<Rightarrow> connectionAPNS outcome" where
  "logPrintln a sid args =
     (if isLogging a then enqueueLog a \<lparr>socketID = sid, message = Sprintln args\<rparr> else Ret a)"

definition logPrintf :: "connectionAPNS \<Rightarrow> int \<Rightarrow> string \<Rightarrow> connectionAPNS outcome" where
  "logPrintf a sid text =
     (if isLogging a then enqueueLog a \<lparr>socketID = sid, message = text\<rparr> else Ret a)"

section \<open>Replay after a closure (connectionAPNS.handleCloseError)\<close>

text \<open>Indexing a slice panics out of range.\<close>

definition index :: "'a list \<Rightarrow> int \<Rightarrow> 'a outcome" where
  "index xs i = (if 0 \<le> i \<and> i < int (length xs) then Ret (xs ! nat i) else Panic)"

text \<open>
  The loop \<open>for i := intUnsentCount; i > 0; i--\<close>. The source writes
  \<open>a.PushOne(payload)\<close>; the method of \<open>connectionAPNS\<close> is \<open>pushOne\<close> (the exported
  \<open>PushOne\<close> is the package function that takes an application id), and the call is
  taken to be that method.
\<close>

function replay_loop :: "connectionAPNS \<Rightarrow> Payload list \<Rightarrow> int \<Rightarrow> int \<Rightarrow> int \<Rightarrow> connectionAPNS outcome" where
  "replay_loop a cache intCurrentIdx intCacheSize i =
     (if i > 0 then
        (if intCacheSize = 0 then Panic
         else bindO (index cache ((intCurrentIdx + intCacheSize - i + 1) smod intCacheSize)) (\<lambda>payload.
              bindO (pushOne a payload) (\<lambda>a'.
              replay_loop a' cache intCurrentIdx intCacheSize (i - 1))))
      else Ret a)"
  by pat_completeness auto
termination
  by (relation "measure (\<lambda>(a, cache, intCurrentIdx, intCacheSize, i). nat i)") auto

definition fmt_payload :: "Payload \<Rightarrow> string" where
  "fmt_payload p =
     ''Payload '' @ ExtraData p @ '' '' @ Category p @ '' '' @ AlertText p @ [CHR 0x0A] @ Token p @ [CHR 0x0A]"

definition fmt_unsent :: "ConnectionClose \<Rightarrow> string" where
  "fmt_unsent closeError =
     ''List length '' @ fmt_int (int (length (UnsentPayloads closeError))) @ '', Overflow ''
       @ fmt_bool (UnsentPayloadBufferOverflow closeError) @ [CHR 0x0A]"

definition handleCloseError ::
  "connectionAPNS \<Rightarrow> ConnectionClose \<Rightarrow> int \<Rightarrow> Payload list \<Rightarrow> int \<Rightarrow> connectionAPNS outcome" where
  "handleCloseError a closeError sid cache intCurrentIdx =
     bindO (logPrintln a sid [''CloseError: '', Error closeError]) (\<lambda>a1.
     let intUnsentCount = int (length (UnsentPayloads closeError)) in
     bindO (if intUnsentCount > 0
            then logPrintf a1 sid (fmt_unsent closeError)
            else Ret a1) (\<lambda>a2.
     bindO (case ErrorPayload closeError of
              Some payload \<Rightarrow> logPrintf a2 sid (fmt_payload payload)
            | None \<Rightarrow> Ret a2) (\<lambda>a3.
     if intUnsentCount > 0 then
       (let intCacheSize = int (length cache);
            n = (if intUnsentCount > intCacheSize then intCacheSize else intUnsentCount)
        in replay_loop a3 cache intCurrentIdx intCacheSize n)
     else Ret a3)))"

section \<open>Launching a manager (connectionAPNS.launch, getBadTokens)\<close>

text \<open>
  What \<open>launch\<close> reads from outside the package: the two gateway URLs set by
  \<open>InitURLs\<close>, whether \<open>os.OpenFile\<close> fails, and what the feedback service answers
  (an error, or a list of timestamp and token).
\<close>

record world =
  pushURL :: string
  feedbackURL :: string
  openFileError :: "string option"
  feedbackService :: "string + (nat \<times> string) list"

text \<open>A goroutine started by a \<open>go\<close> statement: the method and its argument.\<close>

datatype task = LaunchSocket int | LogListener

text \<open>
  A \<open>log.Logger\<close> is its prefix; the file is the list of (prefix, text) written through
  the handle \<open>fileLog\<close>. Date, time and source position of a line are left out.
\<close>

definition write_log :: "connectionAPNS \<Rightarrow> string \<Rightarrow> string \<Rightarrow> connectionAPNS outcome" where
  "write_log a prefix text =
     (case fileLog a of None \<Rightarrow> Panic | Some ls \<Rightarrow> Ret (a\<lparr>fileLog := Some (ls @ [(prefix, text)])\<rparr>))"

text \<open>\<open>Print\<close> on the logger found in the map \<open>loggers\<close>; a missing key gives a nil logger.\<close>

definition logger_Print :: "string option \<Rightarrow> connectionAPNS \<Rightarrow> string \<Rightarrow> connectionAPNS outcome" where
  "logger_Print lg a text = (case lg of None \<Rightarrow> Panic | Some prefix \<Rightarrow> write_log a prefix text)"

fun log_feedback :: "connectionAPNS \<Rightarrow> (nat \<times> string) list \<Rightarrow> connectionAPNS outcome" where
  "log_feedback a [] = Ret a"
| "log_feedback a ((ts, token) # rest) =
     bindO (write_log a ''APN: '' (Sprintln [''TimeStamp and Token'', fmt_int (int ts), token])) (\<lambda>a'.
     log_feedback a' rest)"

definition getBadTokens :: "world \<Rightarrow> connectionAPNS \<Rightarrow> (string option \<times> connectionAPNS) outcome" where
  "getBadTokens w a =
     (case feedbackService w of
        Inr listResponse \<Rightarrow>
          bindO (write_log a ''APN: '' (Sprintln [''getBadTokens listResponse len'', fmt_int (int (length listResponse))])) (\<lambda>a1.
          bindO (log_feedback a1 listResponse) (\<lambda>a2. Ret (None, a2)))
      | Inl err \<Rightarrow>
          bindO (write_log a ''APN: '' (Sprintln [''getBadTokens failed '', err])) (\<lambda>a1. Ret (Some err, a1)))"

text \<open>
  \<open>launch\<close> returns its error, the manager and the goroutines it started. Reading
  \<open>a.cert.Cert\<close> through a nil \<open>cert\<close> panics.
\<close>

definition launch ::
  "world \<Rightarrow> bool \<Rightarrow> connectionAPNS \<Rightarrow> (string option \<times> connectionAPNS \<times> task list) outcome" where
  "launch w isLogging' a0 =
     (let a = a0\<lparr>isLogging := isLogging'\<rparr> in
      if status a = ApnsActive \<or> status a = ApnsNoCerts then Ret (None, a, [])
      else
        (case cert a of
           None \<Rightarrow> Panic
         | Some c \<Rightarrow>
            (let a1 = a\<lparr>cfgAPNS := Some \<lparr>CertificateBytes = Cert c, KeyBytes = RSAKey c, GatewayHost = pushURL w\<rparr>,
                         cfgFeedback := Some \<lparr>CertificateBytes = Cert c, KeyBytes = RSAKey c, GatewayHost = feedbackURL w\<rparr>\<rparr>
             in case openFileError w of
                  Some err \<Rightarrow> Ret (Some err, a1\<lparr>fileLog := None\<rparr>, [])
                | None \<Rightarrow>
                   bindO (getBadTokens w (a1\<lparr>fileLog := Some []\<rparr>)) (\<lambda>(err, a2).
                   case err of
                     Some e \<Rightarrow> Ret (Some e, a2, [])
                   | None \<Rightarrow>
                      Ret (None,
                           a2\<lparr>chanDone := Some Open,
                              chanDoneLog := Some Open,
                              chanSend := Some \<lparr>buf = [], cap = 100\<rparr>,
                              chanLog := Some \<lparr>buf = [], cap = 100\<rparr>,
                              loggers := [1 \<mapsto> ''APN1: '', 2 \<mapsto> ''APN2: ''],
                              status := ApnsActive\<rparr>,
                           [LaunchSocket 1, LaunchSocket 2])))))"

section \<open>The diagnostics relay (connectionAPNS.logListener)\<close>

text \<open>
  One pass of the \<open>for\<close> loop: the \<open>select\<close> takes whichever ready case the scheduler
  picks. A case that is not ready is not taken, and the pass waits (the state stays).
  The relay's local \<open>bShutdown\<close> is the second component.
\<close>

datatype log_choice = TakeEntry | TakeDoneLog

definition logListener_pass :: "log_choice \<Rightarrow> connectionAPNS \<times> bool \<Rightarrow> (connectionAPNS \<times> bool) outcome" where
  "logListener_pass ch s =
     (if snd s then Ret s
      else if ch = TakeDoneLog then
        (if chanDoneLog (fst s) = Some Closed then Ret (fst s, True) else Ret s)
      else
        (case chan_recv (chanLog (fst s)) of
           None \<Rightarrow> Ret s
         | Some (entry, c) \<Rightarrow>
             bindO (logger_Print (loggers (fst s) (socketID entry)) ((fst s)\<lparr>chanLog := c\<rparr>) (message entry))
               (\<lambda>a'. Ret (a', False))))"

fun logListener :: "log_choice list \<Rightarrow> connectionAPNS \<times> bool \<Rightarrow> (connectionAPNS \<times> bool) outcome" where
  "logListener [] s = Ret s"
| "logListener (ch # chs) s = bindO (logListener_pass ch s) (logListener chs)"

section \<open>The public surface (apnsservice.go)\<close>

text \<open>A pointer that may be nil is an option.\<close>

definition newConnection :: "int \<Rightarrow> string \<Rightarrow> AppCert option \<Rightarrow> connectionAPNS" where
  "newConnection appID' stringID' appCert =
     \<lparr>appID = appID', stringID = stringID', fileLog = None, loggers = Map.empty,
      cert = appCert, cfgAPNS = None, cfgFeedback = None,
      chanDone = None, chanDoneLog = None, chanSend = None, chanLog = None,
      status = (if appCert \<noteq> None then ApnsCertsFound else ApnsNoCerts),
      isLogging = True\<rparr>"

type_synonym registry = "int \<rightharpoonup> connectionAPNS"

definition LaunchConnection ::
  "world \<Rightarrow> int \<Rightarrow> string \<Rightarrow> int \<Rightarrow> AppCert \<Rightarrow> bool \<Rightarrow> registry \<Rightarrow> (string option \<times> registry \<times> task list) outcome" where
  "LaunchConnection w appID' appString isPushEnabled appCert isLogging' mapAPNS =
     (if isPushEnabled = 1 then
        bindO (launch w isLogging' (newConnection appID' appString (Some appCert))) (\<lambda>(err, c, tasks).
        case err of
          Some e \<Rightarrow> Ret (Some e, mapAPNS, tasks)
        | None \<Rightarrow> Ret (None, mapAPNS(appID' \<mapsto> c), tasks))
      else Ret (None, mapAPNS, []))"

definition PushOne :: "int \<Rightarrow> Payload \<Rightarrow> registry \<Rightarrow> registry outcome" where
  "PushOne appID' payload mapAPNS =
     (case mapAPNS appID' of
        Some c \<Rightarrow> bindO (pushOne c payload) (\<lambda>c'. Ret (mapAPNS(appID' \<mapsto> c')))
      | None \<Rightarrow> Ret mapAPNS)"

definition CloseConnection :: "int \<Rightarrow> registry \<Rightarrow> registry outcome" where
  "CloseConnection appID' mapAPNS =
     (case mapAPNS appID' of
        Some c \<Rightarrow> bindO (close c) (\<lambda>c'. Ret (mapAPNS(appID' \<mapsto> c')))
      | None \<Rightarrow> Ret mapAPNS)"

section \<open>A transport worker (connectionAPNS.launchSocket)\<close>

text \<open>
  The local variables of one call of \<open>launchSocket\<close>, with the point the goroutine has
  reached. \<open>connLast\<close> and \<open>connAPNS\<close> hold the handle of a connection; \<open>wire\<close> is
  what the worker's connections accepted on their \<open>SendChannel\<close>, oldest first, and
  \<open>disconnected\<close> the handles \<open>Disconnect\<close> was called on.
\<close>

datatype pc = AtConnect | AtSelect | AtEpilogue | Exited

record worker =
  at :: pc
  bShutdown :: bool
  bConnectionGood :: bool
  connLast :: "nat option"
  connAPNS :: "nat option"
  intCacheSize :: int
  intPayloadIdx :: int
  payloadCache :: "Payload list"
  exponentialBackoff :: int
  wire :: "Payload list"
  disconnected :: "nat list"

definition backoffLimit :: int where
  "backoffLimit = 128"

text \<open>The declarations at the head of \<open>launchSocket\<close>, for a cache of \<open>n\<close> slots.\<close>

definition locals :: "int \<Rightarrow> worker" where
  "locals n =
     \<lparr>at = AtConnect, bShutdown = False, bConnectionGood = False, connLast = None, connAPNS = None,
      intCacheSize = n, intPayloadIdx = n - 1,
      payloadCache = replicate (nat n) zeroPayload,
      exponentialBackoff = 1, wire = [], disconnected = []\<rparr>"

definition launchSocket_locals :: worker where
  "launchSocket_locals = locals 32"

text \<open>
  What the environment decides at a suspension point: the result of connecting, and
  which ready case a \<open>select\<close> takes.
\<close>

datatype wait = After5s | DoneClosed

datatype send_result = Accepted | TimedOut

datatype event =
    Connected nat
  | ConnectFailed string wait
  | PayloadReady send_result
  | Closure ConnectionClose
  | DoneSignal
  | EpilogueTimeout
  | EpilogueClosure ConnectionClose

text \<open>The branch \<open>case connAPNS.SendChannel <- payload\<close>: send it and cache it.\<close>

definition send_and_cache :: "worker \<Rightarrow> Payload \<Rightarrow> worker outcome" where
  "send_and_cache w payload =
     (if intCacheSize w = 0 then Panic
      else
        (let idx = (intPayloadIdx w + 1) smod intCacheSize w in
         if 0 \<le> idx \<and> idx < int (length (payloadCache w))
         then Ret (w\<lparr>wire := wire w @ [payload],
                     intPayloadIdx := idx,
                     payloadCache := (payloadCache w)[nat idx := payload],
                     exponentialBackoff := 1\<rparr>)
         else Panic))"

text \<open>The backoff after a closure: \<open>if exponentialBackoff < backoffLimit\<close>, double it.\<close>

definition backoff_after_closure :: "int \<Rightarrow> int" where
  "backoff_after_closure b = (if b < backoffLimit then b * 2 else b)"

text \<open>The last statements of \<open>launchSocket\<close>, after the \<open>select\<close> on \<open>connLast\<close>.\<close>

definition finish :: "int \<Rightarrow> connectionAPNS \<times> worker \<Rightarrow> (connectionAPNS \<times> worker) outcome" where
  "finish sid s =
     bindO (logPrintln (fst s) sid [''Shutting down apns service'']) (\<lambda>a.
     if bShutdown (snd s)
     then bindO (chan_close (chanDoneLog a)) (\<lambda>d. Ret (a\<lparr>chanDoneLog := d\<rparr>, (snd s)\<lparr>at := Exited\<rparr>))
     else Ret (a, (snd s)\<lparr>at := Exited\<rparr>))"

text \<open>
  The head of the outer loop: leave it on shutdown, else connect next. After the loop,
  a worker that never had a connection goes straight to the last statements.
\<close>

definition outer_top :: "int \<Rightarrow> connectionAPNS \<times> worker \<Rightarrow> (connectionAPNS \<times> worker) outcome" where
  "outer_top sid s =
     (if bShutdown (snd s)
      then bindO (logPrintln (fst s) sid [''Breaking the for loop, shutdown'']) (\<lambda>a.
           if connLast (snd s) \<noteq> None then Ret (a, (snd s)\<lparr>at := AtEpilogue\<rparr>)
           else finish sid (a, snd s))
      else Ret (fst s, (snd s)\<lparr>at := AtConnect\<rparr>))"

text \<open>The head of the inner loop.\<close>

definition inner_top :: "int \<Rightarrow> connectionAPNS \<times> worker \<Rightarrow> (connectionAPNS \<times> worker) outcome" where
  "inner_top sid s =
     (if \<not> bConnectionGood (snd s) \<or> bShutdown (snd s) then outer_top sid s
      else Ret (fst s, (snd s)\<lparr>at := AtSelect\<rparr>))"

text \<open>
  Connecting, and the wait after a failed attempt: the done case is taken only when
  \<open>chanDone\<close> is closed; otherwise the five seconds pass and the loop continues.
\<close>

definition on_connected :: "int \<Rightarrow> nat \<Rightarrow> connectionAPNS \<times> worker \<Rightarrow> (connectionAPNS \<times> worker) outcome" where
  "on_connected sid c s =
     bindO (logPrint (fst s) sid ''Establishing connection'') (\<lambda>a.
     bindO (logPrintln a sid [''Connection established'']) (\<lambda>a'.
     inner_top sid (a', (snd s)\<lparr>connAPNS := Some c, connLast := Some c, bConnectionGood := True\<rparr>)))"

definition on_connect_failed ::
  "int \<Rightarrow> string \<Rightarrow> wait \<Rightarrow> connectionAPNS \<times> worker \<Rightarrow> (connectionAPNS \<times> worker) outcome" where
  "on_connect_failed sid err wt s =
     bindO (logPrint (fst s) sid ''Establishing connection'') (\<lambda>a.
     bindO (logPrintf a sid ('' Error: '' @ err @ [CHR 0x0A])) (\<lambda>a'.
     let w = (snd s)\<lparr>connAPNS := None, bConnectionGood := False\<rparr> in
     if wt = DoneClosed \<and> chanDone a' = Some Closed
     then bindO (logPrintln a' sid [''Received done close'']) (\<lambda>a''.
          inner_top sid (a'', w\<lparr>bShutdown := True\<rparr>))
     else outer_top sid (a', w)))"

text \<open>
  The three cases of the inner \<open>select\<close>. The first receives the payload from
  \<open>chanSend\<close> and then races the hand-over to the transport against the backoff timer.
\<close>

definition fmt_push :: "Payload \<Rightarrow> string" where
  "fmt_push payload = ''Push to device '' @ ExtraData payload @ '' '' @ AlertText payload @ [CHR 0x0A]"

definition on_payload :: "int \<Rightarrow> send_result \<Rightarrow> connectionAPNS \<times> worker \<Rightarrow> (connectionAPNS \<times> worker) outcome" where
  "on_payload sid r s =
     (case chan_recv (chanSend (fst s)) of
        None \<Rightarrow> Ret s
      | Some (payload, c) \<Rightarrow>
          bindO (logPrintf ((fst s)\<lparr>chanSend := c\<rparr>) sid (fmt_push payload)) (\<lambda>a.
          bindO (if r = TimedOut then Ret (snd s) else send_and_cache (snd s) payload) (\<lambda>w.
          inner_top sid (a, w))))"

definition on_closure :: "int \<Rightarrow> ConnectionClose \<Rightarrow> connectionAPNS \<times> worker \<Rightarrow> (connectionAPNS \<times> worker) outcome" where
  "on_closure sid closeError s =
     bindO (logPrintln (fst s) sid [''Received error, closing connection'']) (\<lambda>a.
     let w = (snd s)\<lparr>exponentialBackoff := backoff_after_closure (exponentialBackoff (snd s))\<rparr> in
     bindO (handleCloseError a closeError sid (payloadCache w) (intPayloadIdx w)) (\<lambda>a'.
     inner_top sid (a', w\<lparr>bConnectionGood := False\<rparr>)))"

definition on_done :: "int \<Rightarrow> connectionAPNS \<times> worker \<Rightarrow> (connectionAPNS \<times> worker) outcome" where
  "on_done sid s =
     (if chanDone (fst s) = Some Closed
      then bindO (logPrintln (fst s) sid [''Done channel is closed. Closing connection.'']) (\<lambda>a.
           inner_top sid (a, (snd s)\<lparr>disconnected := disconnected (snd s) @ (case connAPNS (snd s) of None \<Rightarrow> [] | Some c \<Rightarrow> [c]),
                                      bShutdown := True\<rparr>))
      else Ret s)"

text \<open>The \<open>select\<close> on \<open>connLast\<close> after the loops.\<close>

definition on_epilogue_timeout :: "int \<Rightarrow> connectionAPNS \<times> worker \<Rightarrow> (connectionAPNS \<times> worker) outcome" where
  "on_epilogue_timeout sid s =
     bindO (logPrint (fst s) sid ''.'') (\<lambda>a. finish sid (a, snd s))"

definition on_epilogue_closure ::
  "int \<Rightarrow> ConnectionClose \<Rightarrow> connectionAPNS \<times> worker \<Rightarrow> (connectionAPNS \<times> worker) outcome" where
  "on_epilogue_closure sid closeError s =
     bindO (logPrintln (fst s) sid [''Closing channel'']) (\<lambda>a.
     bindO (handleCloseError a closeError sid (payloadCache (snd s)) (intPayloadIdx (snd s))) (\<lambda>a'.
     finish sid (a', snd s)))"

text \<open>
  One step of the worker \<open>sid\<close>. An event that the worker's current point does not wait
  for does not happen: the state stays.
\<close>

fun launchSocket_step :: "int \<Rightarrow> event \<Rightarrow> connectionAPNS \<times> worker \<Rightarrow> (connectionAPNS \<times> worker) outcome" where
  "launchSocket_step sid (Connected c) s = (if at (snd s) = AtConnect then on_connected sid c s else Ret s)"
| "launchSocket_step sid (ConnectFailed err wt) s = (if at (snd s) = AtConnect then on_connect_failed sid err wt s else Ret s)"
| "launchSocket_step sid (PayloadReady r) s = (if at (snd s) = AtSelect then on_payload sid r s else Ret s)"
| "launchSocket_step sid (Closure ce) s = (if at (snd s) = AtSelect then on_closure sid ce s else Ret s)"
| "launchSocket_step sid DoneSignal s = (if at (snd s) = AtSelect then on_done sid s else Ret s)"
| "launchSocket_step sid EpilogueTimeout s = (if at (snd s) = AtEpilogue then on_epilogue_timeout sid s else Ret s)"
| "launchSocket_step sid (EpilogueClosure ce) s = (if at (snd s) = AtEpilogue then on_epilogue_closure sid ce s else Ret s)"

section \<open>One manager with its two workers\<close>

text \<open>
  \<open>launch\<close> starts \<open>launchSocket(1)\<close> and \<open>launchSocket(2)\<close> on the same manager. Each
  call has its own local variables. An action is a call from outside or a step of one
  worker; a panic of any goroutine ends the process, and a run ends where a step blocks
  (what is done after a blocked goroutine is woken is not followed).
\<close>

record system =
  mgr :: connectionAPNS
  worker1 :: worker
  worker2 :: worker

datatype action = Submit Payload | Close | Work int event

definition started :: "connectionAPNS \<Rightarrow> system" where
  "started a = \<lparr>mgr = a, worker1 = launchSocket_locals, worker2 = launchSocket_locals\<rparr>"

fun act :: "action \<Rightarrow> system \<Rightarrow> system outcome" where
  "act (Submit payload) s = bindO (pushOne (mgr s) payload) (\<lambda>a. Ret (s\<lparr>mgr := a\<rparr>))"
| "act Close s = bindO (close (mgr s)) (\<lambda>a. Ret (s\<lparr>mgr := a\<rparr>))"
| "act (Work sid ev) s =
     (if sid = 1 then bindO (launchSocket_step 1 ev (mgr s, worker1 s)) (\<lambda>r. Ret (s\<lparr>mgr := fst r, worker1 := snd r\<rparr>))
      else if sid = 2 then bindO (launchSocket_step 2 ev (mgr s, worker2 s)) (\<lambda>r. Ret (s\<lparr>mgr := fst r, worker2 := snd r\<rparr>))
      else Ret s)"

fun run :: "action list \<Rightarrow> system \<Rightarrow> system outcome" where
  "run [] s = Ret s"
| "run (x # xs) s = bindO (act x s) (run xs)"

section \<open>Notions used in the statements\<close>

text \<open>Successful hand-overs of the payloads \<open>ps\<close>, one after the other, by one worker.\<close>

fun sends :: "worker \<Rightarrow> Payload list \<Rightarrow> worker outcome" where
  "sends w [] = Ret w"
| "sends w (p # ps) = bindO (send_and_cache w p) (\<lambda>w'. sends w' ps)"

text \<open>
  The cache \<open>cache\<close> of \<open>C\<close> slots with cursor \<open>cur\<close> holds the last \<open>C\<close> entries of
  \<open>hist\<close>: going back \<open>j\<close> slots from the cursor finds the entry \<open>j\<close> places before
  the last.
\<close>

definition ring :: "int \<Rightarrow> Payload list \<Rightarrow> int \<Rightarrow> Payload list \<Rightarrow> bool" where
  "ring C cache cur hist \<longleftrightarrow>
     0 < C \<and> int (length cache) = C \<and> 0 \<le> cur \<and> cur < C \<and> nat C \<le> length hist \<and>
     (\<forall>j. 0 \<le> j \<and> j < C \<longrightarrow> cache ! nat ((cur - j) mod C) = hist ! (length hist - 1 - nat j))"

text \<open>The diagnostics queue takes \<open>k\<close> more entries without blocking, or logging is off.\<close>

definition log_room :: "connectionAPNS \<Rightarrow> nat \<Rightarrow> bool" where
  "log_room a k =
     (if isLogging a
      then (case chanLog a of None \<Rightarrow> False | Some l \<Rightarrow> length (buf l) + k \<le> cap l)
      else True)"

text \<open>The count that the loop of \<open>handleCloseError\<close> starts from.\<close>

definition clamped :: "ConnectionClose \<Rightarrow> Payload list \<Rightarrow> nat" where
  "clamped ce cache = min (length (UnsentPayloads ce)) (length cache)"

text \<open>
  \<open>frame a a'\<close>: the manager \<open>a'\<close> is \<open>a\<close> except possibly for the channels
  \<open>chanSend\<close>, \<open>chanLog\<close> and \<open>chanDoneLog\<close>. \<open>quiet a a'\<close>: the send queue is the
  same as well.
\<close>

definition frame :: "connectionAPNS \<Rightarrow> connectionAPNS \<Rightarrow> bool" where
  "frame a a' \<longleftrightarrow>
     appID a' = appID a \<and> stringID a' = stringID a \<and> fileLog a' = fileLog a \<and>
     loggers a' = loggers a \<and> cert a' = cert a \<and> cfgAPNS a' = cfgAPNS a \<and>
     cfgFeedback a' = cfgFeedback a \<and> chanDone a' = chanDone a \<and>
     status a' = status a \<and> isLogging a' = isLogging a"

definition quiet :: "connectionAPNS \<Rightarrow> connectionAPNS \<Rightarrow> bool" where
  "quiet a a' \<longleftrightarrow> frame a a' \<and> chanSend a' = chanSend a"

text \<open>\<open>kept w w'\<close>: cache, cursor, backoff and wire of the worker are unchanged.\<close>

definition kept :: "worker \<Rightarrow> worker \<Rightarrow> bool" where
  "kept w w' \<longleftrightarrow>
     intCacheSize w' = intCacheSize w \<and> intPayloadIdx w' = intPayloadIdx w \<and>
     payloadCache w' = payloadCache w \<and> exponentialBackoff w' = exponentialBackoff w \<and>
     wire w' = wire w"

text \<open>The payloads waiting on the send channel.\<close>

definition queue :: "connectionAPNS \<Rightarrow> Payload list" where
  "queue a = (case chanSend a of None \<Rightarrow> [] | Some c \<Rightarrow> buf c)"

text \<open>\<open>same_but_file a a'\<close>: only the log file of the manager may have grown.\<close>

definition same_but_file :: "connectionAPNS \<Rightarrow> connectionAPNS \<Rightarrow> bool" where
  "same_but_file a a' \<longleftrightarrow>
     appID a' = appID a \<and> stringID a' = stringID a \<and> loggers a' = loggers a \<and>
     cert a' = cert a \<and> cfgAPNS a' = cfgAPNS a \<and> cfgFeedback a' = cfgFeedback a \<and>
     chanDone a' = chanDone a \<and> chanDoneLog a' = chanDoneLog a \<and> chanSend a' = chanSend a \<and>
     chanLog a' = chanLog a \<and> status a' = status a \<and> isLogging a' = isLogging a"

text \<open>Every payload that one of the two workers handed to a transport.\<close>

definition wires :: "system \<Rightarrow> Payload set" where
  "wires s = set (wire (worker1 s)) \<union> set (wire (worker2 s))"

text \<open>What waits on the send channel at the end of a run.\<close>

definition queued :: "system outcome \<Rightarrow> Payload list outcome" where
  "queued r = bindO r (\<lambda>s. Ret (queue (mgr s)))"


section \<open>Example states\<close>

definition cert0 :: AppCert where
  "cert0 = \<lparr>AppID = 7, IsDev = 0, Cert = [], RSAKey = []\<rparr>"

definition world0 :: world where
  "world0 = \<lparr>pushURL = ''gateway.push.apple.com'', feedbackURL = ''feedback.push.apple.com'',
             openFileError = None, feedbackService = Inr []\<rparr>"

text \<open>The manager as \<open>launch\<close> leaves it, and as \<open>close\<close> leaves it after that.\<close>

definition live :: "bool \<Rightarrow> connectionAPNS" where
  "live logging =
     \<lparr>appID = 7, stringID = ''app'',
      fileLog = Some [(''APN: '', ''getBadTokens listResponse len 0'' @ [CHR 0x0A])],
      loggers = [1 \<mapsto> ''APN1: '', 2 \<mapsto> ''APN2: ''],
      cert = Some cert0,
      cfgAPNS = Some \<lparr>CertificateBytes = [], KeyBytes = [], GatewayHost = ''gateway.push.apple.com''\<rparr>,
      cfgFeedback = Some \<lparr>CertificateBytes = [], KeyBytes = [], GatewayHost = ''feedback.push.apple.com''\<rparr>,
      chanDone = Some Open, chanDoneLog = Some Open,
      chanSend = Some \<lparr>buf = [], cap = 100\<rparr>, chanLog = Some \<lparr>buf = [], cap = 100\<rparr>,
      status = ApnsActive, isLogging = logging\<rparr>"

definition closed :: "bool \<Rightarrow> connectionAPNS" where
  "closed logging = (live logging)\<lparr>chanDone := Some Closed, status := ApnsCertsFound\<rparr>"

definition pay :: "string \<Rightarrow> Payload" where
  "pay t = \<lparr>Token = t, AlertText = ''hello'', Category = [], ExtraData = []\<rparr>"

definition closure_of :: "Payload list \<Rightarrow> ConnectionClose" where
  "closure_of ps = \<lparr>Error = ''EOF'', UnsentPayloads = ps, UnsentPayloadBufferOverflow = False, ErrorPayload = None\<rparr>"

text \<open>A worker with four cache slots after handing over A, B, C, D, E and F.\<close>

definition six_sent :: worker where
  "six_sent =
     \<lparr>at = AtConnect, bShutdown = False, bConnectionGood = False, connLast = None, connAPNS = None,
      intCacheSize = 4, intPayloadIdx = 1,
      payloadCache = [pay ''E'', pay ''F'', pay ''C'', pay ''D''],
      exponentialBackoff = 1,
      wire = [pay ''A'', pay ''B'', pay ''C'', pay ''D'', pay ''E'', pay ''F''],
      disconnected = []\<rparr>"

text \<open>A worker of \<open>launchSocket\<close> that holds connection \<open>c\<close> and waits in the inner \<open>select\<close>.\<close>

definition connected :: "nat \<Rightarrow> worker" where
  "connected c = launchSocket_locals\<lparr>at := AtSelect, bConnectionGood := True, connLast := Some c, connAPNS := Some c\<rparr>"


section \<open>Facts about the example states\<close>

lemma launch_world0:
  "launch world0 logging (newConnection 7 ''app'' (Some cert0)) = Ret (None, live logging, [LaunchSocket 1, LaunchSocket 2])"
  by (simp add: launch_def newConnection_def world0_def cert0_def live_def getBadTokens_def
      write_log_def fmt_int_def)

lemma close_live: "close (live logging) = Ret (closed logging)"
  by (simp add: close_def live_def closed_def chan_close_def)

lemma sends_six:
  "sends (locals 4) [pay ''A'', pay ''B'', pay ''C'', pay ''D'', pay ''E'', pay ''F''] = Ret six_sent"
  by (simp add: locals_def send_and_cache_def six_sent_def smod_int_alt_def eval_nat_numeral)

section \<open>The ring buffer holds the most recent hand-overs\<close>

lemma smod_nonneg: "0 \<le> k \<Longrightarrow> 0 < l \<Longrightarrow> (k::int) smod l = k mod l"
  by (simp add: smod_int_alt_def sgn_if)

lemma ring_locals: "0 < C \<Longrightarrow> ring C (payloadCache (locals C)) (intPayloadIdx (locals C)) (replicate (nat C) zeroPayload)"
  unfolding ring_def locals_def by simp

lemma slot_distinct:
  assumes "0 < (C::int)" "0 < j" "j < C"
  shows "(cur + 1 - j) mod C \<noteq> (cur + 1) mod C"
proof
  assume "(cur + 1 - j) mod C = (cur + 1) mod C"
  then have "C dvd ((cur + 1) - (cur + 1 - j))"
    by (metis mod_eq_dvd_iff)
  then have "C dvd j" by simp
  with assms show False
    by (simp add: zdvd_not_zless)
qed

lemma ring_step:
  assumes "ring C cache cur hist"
  shows "ring C (cache[nat ((cur + 1) mod C) := p]) ((cur + 1) mod C) (hist @ [p])"
proof -
  from assms have C: "0 < C" and len: "int (length cache) = C" and hl: "nat C \<le> length hist"
    and slots: "\<And>j. 0 \<le> j \<Longrightarrow> j < C \<Longrightarrow> cache ! nat ((cur - j) mod C) = hist ! (length hist - 1 - nat j)"
    by (simp_all add: ring_def)
  let ?i = "(cur + 1) mod C"
  have i0: "0 \<le> ?i" and iC: "?i < C" using C by simp_all
  have inr: "nat ?i < length cache" using i0 iC len by linarith
  have "(cache[nat ?i := p]) ! nat ((?i - j) mod C) = (hist @ [p]) ! (length (hist @ [p]) - 1 - nat j)"
    if j: "0 \<le> j" "j < C" for j
  proof (cases "j = 0")
    case True
    then show ?thesis using inr i0 iC by simp
  next
    case False
    with j have jp: "0 < j" by simp
    have eq: "(?i - j) mod C = (cur - (j - 1)) mod C"
      by (metis diff_diff_eq2 mod_diff_left_eq)
    have ne: "(cur - (j - 1)) mod C \<noteq> ?i"
      using slot_distinct [OF C jp j(2), of cur] by (simp add: algebra_simps)
    have nn: "0 \<le> (cur - (j - 1)) mod C" using C by simp
    have "(cache[nat ?i := p]) ! nat ((?i - j) mod C) = cache ! nat ((cur - (j - 1)) mod C)"
      using ne nn i0 by (simp add: eq nat_eq_iff)
    also have "\<dots> = hist ! (length hist - 1 - nat (j - 1))"
      using slots [of "j - 1"] jp j by simp
    also have "length hist - 1 - nat (j - 1) = length hist - nat j"
      using jp by linarith
    also have "hist ! (length hist - nat j) = (hist @ [p]) ! (length (hist @ [p]) - 1 - nat j)"
      using jp j hl by (simp add: nth_append)
    finally show ?thesis .
  qed
  then show ?thesis
    using C len i0 iC hl by (simp add: ring_def)
qed

lemma sends_ring:
  assumes "ring (intCacheSize w) (payloadCache w) (intPayloadIdx w) hist"
  shows "\<exists>w'. sends w xs = Ret w' \<and> intCacheSize w' = intCacheSize w \<and> wire w' = wire w @ xs \<and> exponentialBackoff w' = (if xs = [] then exponentialBackoff w else 1) \<and>
          ring (intCacheSize w) (payloadCache w') (intPayloadIdx w') (hist @ xs)"
  using assms
proof (induction xs arbitrary: w hist)
  case Nil
  then show ?case by simp
next
  case (Cons x xs)
  let ?C = "intCacheSize w"
  from Cons.prems have C: "0 < ?C" and len: "int (length (payloadCache w)) = ?C" and cur: "0 \<le> intPayloadIdx w"
    by (simp_all add: ring_def)
  let ?i = "(intPayloadIdx w + 1) mod ?C"
  let ?w = "w\<lparr>wire := wire w @ [x], intPayloadIdx := ?i, payloadCache := (payloadCache w)[nat ?i := x], exponentialBackoff := 1\<rparr>"
  have st: "send_and_cache w x = Ret ?w"
    using C len cur by (simp add: send_and_cache_def smod_nonneg Let_def)
  have "ring (intCacheSize ?w) (payloadCache ?w) (intPayloadIdx ?w) (hist @ [x])"
    using ring_step [OF Cons.prems, of x] by simp
  from Cons.IH [OF this] st show ?case by auto
qed


declare replay_loop.simps [simp del]

lemma index_slot:
  assumes r: "ring C cache cur hist" and i: "0 < i" "i \<le> C"
  shows "index cache ((cur + C - i + 1) smod C) = Ret (hist ! (length hist - nat i))"
proof -
  from r have C: "0 < C" and len: "int (length cache) = C" and cur: "0 \<le> cur" "cur < C"
    and slots: "\<And>j. 0 \<le> j \<Longrightarrow> j < C \<Longrightarrow> cache ! nat ((cur - j) mod C) = hist ! (length hist - 1 - nat j)"
    by (simp_all add: ring_def)
  have nn: "0 \<le> cur + C - i + 1" using cur i by linarith
  have eq: "(cur + C - i + 1) mod C = (cur - (i - 1)) mod C"
    by (metis add.commute add_diff_eq diff_diff_eq2 mod_add_self1)
  have rng: "0 \<le> (cur - (i - 1)) mod C" "(cur - (i - 1)) mod C < int (length cache)"
    using C len by simp_all
  have "cache ! nat ((cur - (i - 1)) mod C) = hist ! (length hist - 1 - nat (i - 1))"
    using slots [of "i - 1"] i by simp
  moreover have "length hist - 1 - nat (i - 1) = length hist - nat i"
    using i by linarith
  ultimately show ?thesis
    using rng by (simp add: index_def smod_nonneg [OF nn C] eq)
qed

lemma replay_loop_active:
  assumes r: "ring C cache cur hist" and live: "status a = ApnsActive"
    and q: "chanSend a = Some c" and room: "length (buf c) + n \<le> cap c" and n: "int n \<le> C"
  shows "replay_loop a cache cur C (int n) =
           Ret (a\<lparr>chanSend := Some (c\<lparr>buf := buf c @ drop (length hist - n) hist\<rparr>)\<rparr>)"
  using live q room n
proof (induction n arbitrary: a c)
  case 0
  then show ?case by (simp add: replay_loop.simps)
next
  case (Suc n)
  from r have C: "0 < C" and hl: "nat C \<le> length hist" by (simp_all add: ring_def)
  let ?p = "hist ! (length hist - Suc n)"
  let ?c = "c\<lparr>buf := buf c @ [?p]\<rparr>"
  let ?a = "a\<lparr>chanSend := Some ?c\<rparr>"
  have ix: "index cache ((cur + C - int (Suc n) + 1) smod C) = Ret ?p"
    using index_slot [OF r, of "int (Suc n)"] Suc.prems by (simp del: of_nat_Suc)
  have push: "pushOne a ?p = Ret ?a"
    using Suc.prems by (simp add: pushOne_def chan_send_def)
  have ih: "replay_loop ?a cache cur C (int n) =
              Ret (?a\<lparr>chanSend := Some (?c\<lparr>buf := buf ?c @ drop (length hist - n) hist\<rparr>)\<rparr>)"
    using Suc.prems by (intro Suc.IH) simp_all
  have lt: "length hist - Suc n < length hist" using hl Suc.prems by linarith
  have dr: "?p # drop (length hist - n) hist = drop (length hist - Suc n) hist"
    using Cons_nth_drop_Suc [OF lt] hl Suc.prems by (simp add: Suc_diff_Suc)
  have "replay_loop a cache cur C (int (Suc n)) = replay_loop ?a cache cur C (int n)"
    using C by (subst replay_loop.simps) (simp add: ix push del: of_nat_Suc, simp)
  then show ?case
    using ih dr [symmetric] by simp
qed

lemma replay_loop_inactive:
  assumes r: "ring C cache cur hist" and dead: "status a \<noteq> ApnsActive" and n: "int n \<le> C"
  shows "replay_loop a cache cur C (int n) = Ret a"
  using n
proof (induction n)
  case 0
  then show ?case by (simp add: replay_loop.simps)
next
  case (Suc n)
  from r have C: "0 < C" by (simp add: ring_def)
  have ix: "index cache ((cur + C - int (Suc n) + 1) smod C) = Ret (hist ! (length hist - Suc n))"
    using index_slot [OF r, of "int (Suc n)"] Suc.prems by (simp del: of_nat_Suc)
  have "replay_loop a cache cur C (int (Suc n)) = replay_loop a cache cur C (int n)"
    using C dead by (subst replay_loop.simps) (simp add: ix pushOne_def del: of_nat_Suc, simp)
  then show ?case using Suc by simp
qed


lemma enqueueLog_room:
  assumes "isLogging a" "log_room a (Suc k)"
  shows "\<exists>l. enqueueLog a e = Ret (a\<lparr>chanLog := l\<rparr>) \<and> log_room (a\<lparr>chanLog := l\<rparr>) k"
  using assms by (auto simp: enqueueLog_def chan_send_def log_room_def split: option.splits)

lemma log_room_idle: "\<not> isLogging a \<Longrightarrow> log_room (a\<lparr>chanLog := chanLog a\<rparr>) k"
  by (simp add: log_room_def)

lemma logPrintln_room:
  assumes "log_room a (Suc k)"
  shows "\<exists>l. logPrintln a sid args = Ret (a\<lparr>chanLog := l\<rparr>) \<and> log_room (a\<lparr>chanLog := l\<rparr>) k"
proof (cases "isLogging a")
  case True
  with assms show ?thesis using enqueueLog_room [of a k] by (simp add: logPrintln_def)
next
  case False
  then have "logPrintln a sid args = Ret (a\<lparr>chanLog := chanLog a\<rparr>)" by (simp add: logPrintln_def)
  with False show ?thesis using log_room_idle by blast
qed

lemma logPrintf_room:
  assumes "log_room a (Suc k)"
  shows "\<exists>l. logPrintf a sid text = Ret (a\<lparr>chanLog := l\<rparr>) \<and> log_room (a\<lparr>chanLog := l\<rparr>) k"
proof (cases "isLogging a")
  case True
  with assms show ?thesis using enqueueLog_room [of a k] by (simp add: logPrintf_def)
next
  case False
  then have "logPrintf a sid text = Ret (a\<lparr>chanLog := chanLog a\<rparr>)" by (simp add: logPrintf_def)
  with False show ?thesis using log_room_idle by blast
qed

lemma logPrint_room:
  assumes "log_room a (Suc k)"
  shows "\<exists>l. logPrint a sid text = Ret (a\<lparr>chanLog := l\<rparr>) \<and> log_room (a\<lparr>chanLog := l\<rparr>) k"
proof (cases "isLogging a")
  case True
  with assms show ?thesis using enqueueLog_room [of a k] by (simp add: logPrint_def)
next
  case False
  then have "logPrint a sid text = Ret (a\<lparr>chanLog := chanLog a\<rparr>)" by (simp add: logPrint_def)
  with False show ?thesis using log_room_idle by blast
qed

lemma log_room_less: "log_room a (Suc k) \<Longrightarrow> log_room a k"
  by (auto simp: log_room_def split: option.splits)

lemma handleCloseError_logs:
  assumes "log_room a 3"
  shows "\<exists>l. handleCloseError a ce sid cache cur =
               replay_loop (a\<lparr>chanLog := l\<rparr>) cache cur (int (length cache)) (int (clamped ce cache))"
proof -
  have r3: "log_room a (Suc 2)" using assms by (simp add: numeral_3_eq_3)
  from logPrintln_room [OF r3] obtain l1 where
    s1: "logPrintln a sid [''CloseError: '', Error ce] = Ret (a\<lparr>chanLog := l1\<rparr>)"
    and r2: "log_room (a\<lparr>chanLog := l1\<rparr>) 2" by blast
  let ?a1 = "a\<lparr>chanLog := l1\<rparr>"
  let ?n = "int (length (UnsentPayloads ce))"
  let ?t2 = "fmt_unsent ce"
  have "\<exists>l2. (if ?n > 0 then logPrintf ?a1 sid ?t2 else Ret ?a1) = Ret (a\<lparr>chanLog := l2\<rparr>) \<and> log_room (a\<lparr>chanLog := l2\<rparr>) 1"
  proof (cases "?n > 0")
    case True
    from r2 have "log_room ?a1 (Suc 1)" by (simp add: numeral_2_eq_2)
    from logPrintf_room [OF this, of sid ?t2] True show ?thesis by auto
  next
    case False
    from r2 have "log_room ?a1 (Suc 1)" by (simp add: numeral_2_eq_2)
    then have "log_room ?a1 1" by (rule log_room_less)
    with False show ?thesis by auto
  qed
  then obtain l2 where
    s2: "(if ?n > 0 then logPrintf ?a1 sid ?t2 else Ret ?a1) = Ret (a\<lparr>chanLog := l2\<rparr>)"
    and r1: "log_room (a\<lparr>chanLog := l2\<rparr>) 1" by blast
  let ?a2 = "a\<lparr>chanLog := l2\<rparr>"
  have "\<exists>l3. (case ErrorPayload ce of Some payload \<Rightarrow> logPrintf ?a2 sid (fmt_payload payload) | None \<Rightarrow> Ret ?a2)
           = Ret (a\<lparr>chanLog := l3\<rparr>)"
  proof (cases "ErrorPayload ce")
    case None
    then show ?thesis by auto
  next
    case (Some p)
    from r1 have "log_room ?a2 (Suc 0)" by simp
    from logPrintf_room [OF this, of sid "fmt_payload p"] Some show ?thesis by auto
  qed
  then obtain l3 where
    s3: "(case ErrorPayload ce of Some payload \<Rightarrow> logPrintf ?a2 sid (fmt_payload payload) | None \<Rightarrow> Ret ?a2)
           = Ret (a\<lparr>chanLog := l3\<rparr>)" by blast
  have "handleCloseError a ce sid cache cur =
          replay_loop (a\<lparr>chanLog := l3\<rparr>) cache cur (int (length cache)) (int (clamped ce cache))"
    unfolding handleCloseError_def
    by (simp only: s1 bindO.simps Let_def s2 s3)
       (auto simp: clamped_def min_def replay_loop.simps)
  then show ?thesis by blast
qed

lemma ring_slot:
  assumes r: "ring C cache cur hist" and i: "0 < i" "i \<le> C"
  shows "cache ! nat ((cur + C - i + 1) mod C) = hist ! (length hist - nat i)"
  using index_slot [OF r i] r i
  by (simp add: index_def smod_nonneg ring_def split: if_splits)

lemma drop_as_map:
  "n \<le> length xs \<Longrightarrow> drop (length xs - n) xs = map (\<lambda>i. xs ! (length xs - i)) (rev [1..<Suc n])"
proof (induction n)
  case 0
  then show ?case by simp
next
  case (Suc n)
  then have lt: "length xs - Suc n < length xs" by linarith
  have "drop (length xs - Suc n) xs = xs ! (length xs - Suc n) # drop (length xs - n) xs"
    using Cons_nth_drop_Suc [OF lt] Suc.prems by (simp add: Suc_diff_Suc)
  with Suc show ?case by simp
qed

section \<open>What a replay puts on the send queue\<close>

lemma handleCloseError_active:
  assumes r: "ring (int (length cache)) cache cur hist" and live: "status a = ApnsActive"
    and q: "chanSend a = Some c" and room: "length (buf c) + clamped ce cache \<le> cap c"
    and lg: "log_room a 3"
  shows "\<exists>l. handleCloseError a ce sid cache cur =
           Ret (a\<lparr>chanLog := l, chanSend := Some (c\<lparr>buf := buf c @ drop (length hist - clamped ce cache) hist\<rparr>)\<rparr>)"
proof -
  from handleCloseError_logs [OF lg] obtain l where
    h: "handleCloseError a ce sid cache cur =
          replay_loop (a\<lparr>chanLog := l\<rparr>) cache cur (int (length cache)) (int (clamped ce cache))"
    by blast
  have "replay_loop (a\<lparr>chanLog := l\<rparr>) cache cur (int (length cache)) (int (clamped ce cache)) =
          Ret (a\<lparr>chanLog := l, chanSend := Some (c\<lparr>buf := buf c @ drop (length hist - clamped ce cache) hist\<rparr>)\<rparr>)"
    using replay_loop_active [OF r, of "a\<lparr>chanLog := l\<rparr>" c "clamped ce cache"] live q room
    by (simp add: clamped_def)
  with h show ?thesis by auto
qed

lemma handleCloseError_inactive:
  assumes r: "ring (int (length cache)) cache cur hist" and dead: "status a \<noteq> ApnsActive"
    and lg: "log_room a 3"
  shows "\<exists>l. handleCloseError a ce sid cache cur = Ret (a\<lparr>chanLog := l\<rparr>)"
proof -
  from handleCloseError_logs [OF lg] obtain l where
    h: "handleCloseError a ce sid cache cur =
          replay_loop (a\<lparr>chanLog := l\<rparr>) cache cur (int (length cache)) (int (clamped ce cache))"
    by blast
  have "replay_loop (a\<lparr>chanLog := l\<rparr>) cache cur (int (length cache)) (int (clamped ce cache)) = Ret (a\<lparr>chanLog := l\<rparr>)"
    using replay_loop_inactive [OF r, of "a\<lparr>chanLog := l\<rparr>" "clamped ce cache"] dead
    by (simp add: clamped_def)
  with h show ?thesis by auto
qed

lemma sends_locals:
  assumes "0 < C"
  shows "\<exists>w. sends (locals C) xs = Ret w \<and> intCacheSize w = C \<and> wire w = xs \<and>
          ring C (payloadCache w) (intPayloadIdx w) (replicate (nat C) zeroPayload @ xs)"
proof -
  have "ring (intCacheSize (locals C)) (payloadCache (locals C)) (intPayloadIdx (locals C)) (replicate (nat C) zeroPayload)"
    using ring_locals [OF assms] by (simp add: locals_def)
  from sends_ring [OF this, of xs] show ?thesis by (auto simp: locals_def)
qed

text \<open>
  Claim C1, as the code has it. A worker with a cache of \<open>C\<close> slots has handed over the
  payloads \<open>xs\<close>; a closure then reports \<open>N\<close> unsent payloads, with \<open>N\<close> at most \<open>C\<close>
  and at most the number of hand-overs. While the manager's status is Active (and neither
  queue blocks the worker), \<open>handleCloseError\<close> appends to the shared send queue exactly
  the last \<open>N\<close> payloads handed over, oldest first; they are the cache slots
  \<open>(cursor + C - i + 1) mod C\<close> for \<open>i\<close> from \<open>N\<close> down to 1. Nothing reaches the
  transport: the worker's \<open>wire\<close> is no argument of the replay, and besides the two
  queues the manager stays as it was.
\<close>

theorem replay_most_recent_when_active:
  assumes C: "0 < C"
    and N: "length (UnsentPayloads ce) \<le> nat C" "length (UnsentPayloads ce) \<le> length xs"
    and live: "status a = ApnsActive"
    and q: "chanSend a = Some c" "length (buf c) + length (UnsentPayloads ce) \<le> cap c"
    and lg: "log_room a 3"
  shows "\<exists>w a'. sends (locals C) xs = Ret w \<and> wire w = xs \<and>
           handleCloseError a ce sid (payloadCache w) (intPayloadIdx w) = Ret a' \<and>
           chanSend a' = Some (c\<lparr>buf := buf c @ drop (length xs - length (UnsentPayloads ce)) xs\<rparr>) \<and>
           drop (length xs - length (UnsentPayloads ce)) xs =
             map (\<lambda>i. payloadCache w ! nat ((intPayloadIdx w + C - int i + 1) mod C))
                 (rev [1..<Suc (length (UnsentPayloads ce))]) \<and>
           a' = a\<lparr>chanLog := chanLog a', chanSend := chanSend a'\<rparr>"
proof -
  let ?n = "length (UnsentPayloads ce)"
  let ?hist = "replicate (nat C) zeroPayload @ xs"
  from sends_locals [OF C, of xs] obtain w where
    w: "sends (locals C) xs = Ret w" "wire w = xs"
    and r: "ring C (payloadCache w) (intPayloadIdx w) ?hist" by blast
  from r have len: "int (length (payloadCache w)) = C" by (simp add: ring_def)
  have cl: "clamped ce (payloadCache w) = ?n" using N len by (simp add: clamped_def)
  from r len have r': "ring (int (length (payloadCache w))) (payloadCache w) (intPayloadIdx w) ?hist" by simp
  from handleCloseError_active [OF r' live q(1) _ lg, of ce sid] q(2) cl obtain l where
    h: "handleCloseError a ce sid (payloadCache w) (intPayloadIdx w) =
          Ret (a\<lparr>chanLog := l, chanSend := Some (c\<lparr>buf := buf c @ drop (length ?hist - ?n) ?hist\<rparr>)\<rparr>)"
    by auto
  have dr: "drop (length ?hist - ?n) ?hist = drop (length xs - ?n) xs"
    using N by simp
  have slots: "drop (length xs - ?n) xs =
      map (\<lambda>i. payloadCache w ! nat ((intPayloadIdx w + C - int i + 1) mod C)) (rev [1..<Suc ?n])"
  proof -
    have "payloadCache w ! nat ((intPayloadIdx w + C - int i + 1) mod C) = xs ! (length xs - i)"
      if "i \<in> set (rev [1..<Suc ?n])" for i
    proof -
      from that have i: "0 < i" "i \<le> ?n" by auto
      then have "payloadCache w ! nat ((intPayloadIdx w + C - int i + 1) mod C) = ?hist ! (length ?hist - i)"
        using ring_slot [OF r, of "int i"] N by simp
      also have "\<dots> = xs ! (length xs - i)"
        using i N by (simp add: nth_append)
      finally show ?thesis .
    qed
    then show ?thesis
      using drop_as_map [OF N(2)] by (simp cong: map_cong)
  qed
  show ?thesis
    using w h dr slots by auto
qed


text \<open>Four slots, hand-overs A to F, three reported unsent: D, E, F are queued, in that order.\<close>

theorem replay_most_recent_when_active_witness:
  "\<exists>a'. handleCloseError (live False) (closure_of [pay ''D'', pay ''E'', pay ''F'']) 1
            (payloadCache six_sent) (intPayloadIdx six_sent) = Ret a' \<and>
        chanSend a' = Some \<lparr>buf = [pay ''D'', pay ''E'', pay ''F''], cap = 100\<rparr>"
proof -
  let ?xs = "[pay ''A'', pay ''B'', pay ''C'', pay ''D'', pay ''E'', pay ''F'']"
  let ?ce = "closure_of [pay ''D'', pay ''E'', pay ''F'']"
  have "\<exists>w a'. sends (locals 4) ?xs = Ret w \<and> wire w = ?xs \<and>
           handleCloseError (live False) ?ce 1 (payloadCache w) (intPayloadIdx w) = Ret a' \<and>
           chanSend a' = Some (\<lparr>buf = [], cap = 100\<rparr>\<lparr>buf := buf \<lparr>buf = [], cap = 100::nat\<rparr> @ drop (length ?xs - length (UnsentPayloads ?ce)) ?xs\<rparr>) \<and>
           drop (length ?xs - length (UnsentPayloads ?ce)) ?xs =
             map (\<lambda>i. payloadCache w ! nat ((intPayloadIdx w + 4 - int i + 1) mod 4))
                 (rev [1..<Suc (length (UnsentPayloads ?ce))]) \<and>
           a' = (live False)\<lparr>chanLog := chanLog a', chanSend := chanSend a'\<rparr>"
    by (rule replay_most_recent_when_active)
       (simp_all add: closure_of_def live_def log_room_def)
  then obtain w a' where
    "sends (locals 4) ?xs = Ret w"
    "handleCloseError (live False) ?ce 1 (payloadCache w) (intPayloadIdx w) = Ret a'"
    "chanSend a' = Some (\<lparr>buf = [], cap = 100\<rparr>\<lparr>buf := buf \<lparr>buf = [], cap = 100::nat\<rparr> @ drop (length ?xs - length (UnsentPayloads ?ce)) ?xs\<rparr>)"
    by blast
  moreover from this(1) have "w = six_sent" by (simp only: sends_six outcome.inject)
  ultimately show ?thesis by (auto simp: closure_of_def)
qed

text \<open>
  Claim C1 as stated fails once the manager is closed: \<open>pushOne\<close> enqueues only while the
  status is Active, so a closure handled after \<open>close\<close> (as in the \<open>select\<close> on
  \<open>connLast\<close> at the end of \<open>launchSocket\<close>) puts nothing back. In the last two lines a
  worker of \<open>launchSocket\<close> has handed over A and the closure reports it unsent: A is
  back on the queue when the closure comes before \<open>close\<close>, and is not when it comes
  after.
\<close>

theorem replay_after_close_counterexample:
  "close (live False) = Ret (closed False) \<and>
   handleCloseError (closed False) (closure_of [pay ''D'', pay ''E'', pay ''F'']) 1
     (payloadCache six_sent) (intPayloadIdx six_sent) = Ret (closed False) \<and>
   chanSend (closed False) = Some \<lparr>buf = [], cap = 100\<rparr> \<and>
   queued (run [Work 1 (Connected 0), Submit (pay ''A''), Work 1 (PayloadReady Accepted),
                Work 1 (Closure (closure_of [pay ''A'']))] (started (live False))) = Ret [pay ''A''] \<and>
   queued (run [Work 1 (Connected 0), Submit (pay ''A''), Work 1 (PayloadReady Accepted),
                Close, Work 1 DoneSignal,
                Work 1 (EpilogueClosure (closure_of [pay ''A'']))] (started (live False))) = Ret []"
proof (intro conjI)
  show "close (live False) = Ret (closed False)" by (rule close_live)
  show "handleCloseError (closed False) (closure_of [pay ''D'', pay ''E'', pay ''F'']) 1
     (payloadCache six_sent) (intPayloadIdx six_sent) = Ret (closed False)"
    by (simp add: handleCloseError_def logPrintln_def logPrintf_def closure_of_def
      closed_def live_def six_sent_def replay_loop.simps index_def pushOne_def smod_int_alt_def)
  show "chanSend (closed False) = Some \<lparr>buf = [], cap = 100\<rparr>"
    by (simp add: closed_def live_def)
  show "queued (run [Work 1 (Connected 0), Submit (pay ''A''), Work 1 (PayloadReady Accepted),
                Work 1 (Closure (closure_of [pay ''A'']))] (started (live False))) = Ret [pay ''A'']"
    by (simp add: queued_def started_def live_def launchSocket_locals_def locals_def
        pushOne_def chan_send_def chan_recv_def logPrint_def logPrintln_def logPrintf_def
        on_connected_def on_payload_def on_closure_def inner_top_def outer_top_def
        send_and_cache_def handleCloseError_def closure_of_def replay_loop.simps index_def
        backoff_after_closure_def backoffLimit_def smod_int_alt_def queue_def)
  show "queued (run [Work 1 (Connected 0), Submit (pay ''A''), Work 1 (PayloadReady Accepted),
                Close, Work 1 DoneSignal,
                Work 1 (EpilogueClosure (closure_of [pay ''A'']))] (started (live False))) = Ret []"
    by (simp add: queued_def started_def live_def launchSocket_locals_def locals_def
        close_def chan_close_def
        pushOne_def chan_send_def chan_recv_def logPrint_def logPrintln_def logPrintf_def
        on_connected_def on_payload_def on_done_def on_epilogue_closure_def finish_def
        inner_top_def outer_top_def
        send_and_cache_def handleCloseError_def closure_of_def replay_loop.simps index_def
        smod_int_alt_def queue_def)
qed

text \<open>
  Claim C2, as the code has it. A closure reports more unsent payloads than the cache has
  slots. While the manager's status is Active (and neither queue blocks the worker),
  \<open>handleCloseError\<close> appends exactly \<open>C\<close> payloads to the send queue: the contents of
  the \<open>C\<close> slots, oldest first, which are the \<open>C\<close> most recent hand-overs as soon as
  there have been \<open>C\<close> of them (and zero payloads in front of the hand-overs before
  that). No slot outside the cache is read: the call returns.
\<close>

theorem replay_clamped_when_active:
  assumes C: "0 < C"
    and N: "nat C < length (UnsentPayloads ce)"
    and live: "status a = ApnsActive"
    and q: "chanSend a = Some c" "length (buf c) + nat C \<le> cap c"
    and lg: "log_room a 3"
  shows "\<exists>w a'. sends (locals C) xs = Ret w \<and> wire w = xs \<and>
           handleCloseError a ce sid (payloadCache w) (intPayloadIdx w) = Ret a' \<and>
           chanSend a' = Some (c\<lparr>buf := buf c @ drop (length xs) (replicate (nat C) zeroPayload @ xs)\<rparr>) \<and>
           length (drop (length xs) (replicate (nat C) zeroPayload @ xs)) = nat C \<and>
           (nat C \<le> length xs \<longrightarrow>
              drop (length xs) (replicate (nat C) zeroPayload @ xs) = drop (length xs - nat C) xs) \<and>
           a' = a\<lparr>chanLog := chanLog a', chanSend := chanSend a'\<rparr>"
proof -
  let ?hist = "replicate (nat C) zeroPayload @ xs"
  from sends_locals [OF C, of xs] obtain w where
    w: "sends (locals C) xs = Ret w" "wire w = xs"
    and r: "ring C (payloadCache w) (intPayloadIdx w) ?hist" by blast
  from r have len: "int (length (payloadCache w)) = C" by (simp add: ring_def)
  have cl: "clamped ce (payloadCache w) = nat C" using N len by (simp add: clamped_def)
  from r len have r': "ring (int (length (payloadCache w))) (payloadCache w) (intPayloadIdx w) ?hist" by simp
  from handleCloseError_active [OF r' live q(1) _ lg, of ce sid] q(2) cl obtain l where
    h: "handleCloseError a ce sid (payloadCache w) (intPayloadIdx w) =
          Ret (a\<lparr>chanLog := l, chanSend := Some (c\<lparr>buf := buf c @ drop (length ?hist - nat C) ?hist\<rparr>)\<rparr>)"
    by auto
  have dr: "drop (length ?hist - nat C) ?hist = drop (length xs) ?hist"
    by simp
  show ?thesis
    using w h dr by auto
qed

text \<open>Four slots, hand-overs A to F, ten reported unsent: C, D, E, F are queued.\<close>

theorem replay_clamped_when_active_witness:
  "\<exists>a'. handleCloseError (live False) (closure_of (replicate 10 (pay ''X''))) 1
            (payloadCache six_sent) (intPayloadIdx six_sent) = Ret a' \<and>
        chanSend a' = Some \<lparr>buf = [pay ''C'', pay ''D'', pay ''E'', pay ''F''], cap = 100\<rparr>"
proof -
  let ?xs = "[pay ''A'', pay ''B'', pay ''C'', pay ''D'', pay ''E'', pay ''F'']"
  let ?ce = "closure_of (replicate 10 (pay ''X''))"
  let ?q = "\<lparr>buf = [], cap = 100::nat\<rparr> :: Payload bchan"
  have "\<exists>w a'. sends (locals 4) ?xs = Ret w \<and> wire w = ?xs \<and>
           handleCloseError (live False) ?ce 1 (payloadCache w) (intPayloadIdx w) = Ret a' \<and>
           chanSend a' = Some (?q\<lparr>buf := buf ?q @ drop (length ?xs) (replicate (nat 4) zeroPayload @ ?xs)\<rparr>) \<and>
           length (drop (length ?xs) (replicate (nat 4) zeroPayload @ ?xs)) = nat 4 \<and>
           (nat 4 \<le> length ?xs \<longrightarrow>
              drop (length ?xs) (replicate (nat 4) zeroPayload @ ?xs) = drop (length ?xs - nat 4) ?xs) \<and>
           a' = (live False)\<lparr>chanLog := chanLog a', chanSend := chanSend a'\<rparr>"
    by (rule replay_clamped_when_active)
       (simp_all add: closure_of_def live_def log_room_def)
  then obtain w a' where
    "sends (locals 4) ?xs = Ret w"
    "handleCloseError (live False) ?ce 1 (payloadCache w) (intPayloadIdx w) = Ret a'"
    "chanSend a' = Some (?q\<lparr>buf := buf ?q @ drop (length ?xs) (replicate (nat 4) zeroPayload @ ?xs)\<rparr>)"
    "nat 4 \<le> length ?xs \<longrightarrow>
              drop (length ?xs) (replicate (nat 4) zeroPayload @ ?xs) = drop (length ?xs - nat 4) ?xs"
    by blast
  moreover from this(1) have "w = six_sent" by (simp only: sends_six outcome.inject)
  ultimately show ?thesis by auto
qed

text \<open>
  Claim C2 as stated fails once the manager is closed: of the four payloads that the
  clamped replay submits, \<open>pushOne\<close> enqueues none.
\<close>

theorem replay_clamped_after_close_counterexample:
  "close (live False) = Ret (closed False) \<and>
   handleCloseError (closed False) (closure_of (replicate 10 (pay ''X''))) 1
     (payloadCache six_sent) (intPayloadIdx six_sent) = Ret (closed False) \<and>
   chanSend (closed False) = Some \<lparr>buf = [], cap = 100\<rparr>"
proof (intro conjI)
  show "close (live False) = Ret (closed False)" by (rule close_live)
  show "handleCloseError (closed False) (closure_of (replicate 10 (pay ''X''))) 1
     (payloadCache six_sent) (intPayloadIdx six_sent) = Ret (closed False)"
    by (simp add: handleCloseError_def logPrintln_def logPrintf_def closure_of_def
      closed_def live_def six_sent_def replay_loop.simps index_def pushOne_def smod_int_alt_def)
  show "chanSend (closed False) = Some \<lparr>buf = [], cap = 100\<rparr>"
    by (simp add: closed_def live_def)
qed

section \<open>What a step of a worker leaves unchanged\<close>

lemma bindO_Ret: "bindO m f = Ret y \<longleftrightarrow> (\<exists>x. m = Ret x \<and> f x = Ret y)"
  by (cases m) simp_all

lemma quiet_refl: "quiet a a"
  by (simp add: quiet_def frame_def)

lemma quiet_trans: "quiet a b \<Longrightarrow> quiet b c \<Longrightarrow> quiet a c"
  by (simp add: quiet_def frame_def)

lemma kept_refl: "kept w w"
  by (simp add: kept_def)

lemma kept_trans: "kept u v \<Longrightarrow> kept v w \<Longrightarrow> kept u w"
  by (simp add: kept_def)

lemma enqueueLog_quiet: "enqueueLog a e = Ret a' \<Longrightarrow> quiet a a'"
  by (auto simp: enqueueLog_def bindO_Ret quiet_def frame_def)

lemma logPrintln_quiet: "logPrintln a sid args = Ret a' \<Longrightarrow> quiet a a'"
  by (auto simp: logPrintln_def quiet_refl dest: enqueueLog_quiet split: if_splits)

lemma logPrintf_quiet: "logPrintf a sid t = Ret a' \<Longrightarrow> quiet a a'"
  by (auto simp: logPrintf_def quiet_refl dest: enqueueLog_quiet split: if_splits)

lemma logPrint_quiet: "logPrint a sid t = Ret a' \<Longrightarrow> quiet a a'"
  by (auto simp: logPrint_def quiet_refl dest: enqueueLog_quiet split: if_splits)

lemma pushOne_frame:
  "pushOne a p = Ret a' \<Longrightarrow> frame a a' \<and> (status a \<noteq> ApnsActive \<longrightarrow> a' = a)"
  by (auto simp: pushOne_def bindO_Ret frame_def split: if_splits)

lemma frame_trans: "frame a b \<Longrightarrow> frame b c \<Longrightarrow> frame a c"
  by (simp add: frame_def)

lemma replay_loop_frame:
  "replay_loop a cache cur C i = Ret a' \<Longrightarrow> frame a a' \<and> (status a \<noteq> ApnsActive \<longrightarrow> a' = a)"
proof (induction a cache cur C i rule: replay_loop.induct)
  case (1 a cache cur C i)
  show ?case
  proof (cases "i > 0")
    case False
    with "1.prems" show ?thesis by (simp add: replay_loop.simps frame_def)
  next
    case True
    with "1.prems" obtain p a1 where
      C: "C \<noteq> 0" and ix: "index cache ((cur + C - i + 1) smod C) = Ret p"
      and push: "pushOne a p = Ret a1"
      and rest: "replay_loop a1 cache cur C (i - 1) = Ret a'"
      by (subst (asm) replay_loop.simps) (auto simp: bindO_Ret split: if_splits)
    from "1.IH" [OF True C rest] pushOne_frame [OF push] show ?thesis
      by (auto intro: frame_trans)
  qed
qed

lemma handleCloseError_frame:
  assumes "handleCloseError a ce sid cache cur = Ret a'"
  shows "frame a a' \<and> (status a \<noteq> ApnsActive \<longrightarrow> quiet a a')"
proof -
  let ?n = "int (length (UnsentPayloads ce))"
  from assms obtain a1 a2 a3 where
    s1: "logPrintln a sid [''CloseError: '', Error ce] = Ret a1"
    and s2: "(if ?n > 0 then logPrintf a1 sid (fmt_unsent ce) else Ret a1) = Ret a2"
    and s3: "(case ErrorPayload ce of Some payload \<Rightarrow> logPrintf a2 sid (fmt_payload payload) | None \<Rightarrow> Ret a2) = Ret a3"
    and s4: "(if ?n > 0 then
                replay_loop a3 cache cur (int (length cache))
                  (if ?n > int (length cache) then int (length cache) else ?n)
              else Ret a3) = Ret a'"
    unfolding handleCloseError_def Let_def bindO_Ret by blast
  have q1: "quiet a a1" using s1 by (rule logPrintln_quiet)
  have q2: "quiet a1 a2" using s2 by (auto simp: quiet_refl dest: logPrintf_quiet split: if_splits)
  have q3: "quiet a2 a3" using s3 by (auto simp: quiet_refl dest: logPrintf_quiet split: option.splits)
  have q: "quiet a a3" using q1 q2 q3 by (blast intro: quiet_trans)
  have "frame a3 a' \<and> (status a3 \<noteq> ApnsActive \<longrightarrow> a' = a3)"
  proof (cases "?n > 0")
    case True
    with s4 show ?thesis by (simp only: if_True) (rule replay_loop_frame)
  next
    case False
    with s4 show ?thesis by (simp add: frame_def)
  qed
  with q show ?thesis
    by (auto simp: quiet_def frame_def)
qed

lemma finish_effect:
  "finish sid (a, w) = Ret (a', w') \<Longrightarrow> quiet a a' \<and> kept w w'"
  by (auto simp: finish_def bindO_Ret kept_def dest!: logPrintln_quiet split: if_splits)
     (auto simp: quiet_def frame_def)

lemma outer_top_effect:
  "outer_top sid (a, w) = Ret (a', w') \<Longrightarrow> quiet a a' \<and> kept w w'"
  apply (auto simp: outer_top_def bindO_Ret quiet_refl kept_def dest!: logPrintln_quiet finish_effect split: if_splits)
    apply (auto intro: quiet_trans)
  done

lemma inner_top_effect:
  "inner_top sid (a, w) = Ret (a', w') \<Longrightarrow> quiet a a' \<and> kept w w'"
  by (auto simp: inner_top_def quiet_refl kept_def dest!: outer_top_effect split: if_splits)

lemma quiet_queue: "quiet a a' \<Longrightarrow> queue a' = queue a \<and> status a' = status a"
  by (simp add: quiet_def frame_def queue_def)

lemma on_connected_effect:
  assumes "on_connected sid c (a, w) = Ret (a', w')"
  shows "quiet a a' \<and> kept w w'"
proof -
  from assms obtain a1 a2 where
    s1: "logPrint a sid ''Establishing connection'' = Ret a1"
    and s2: "logPrintln a1 sid [''Connection established''] = Ret a2"
    and s3: "inner_top sid (a2, w\<lparr>connAPNS := Some c, connLast := Some c, bConnectionGood := True\<rparr>) = Ret (a', w')"
    unfolding on_connected_def bindO_Ret fst_conv snd_conv by blast
  from inner_top_effect [OF s3] logPrint_quiet [OF s1] logPrintln_quiet [OF s2]
  show ?thesis by (auto intro: quiet_trans simp: kept_def)
qed

lemma on_connect_failed_effect:
  assumes "on_connect_failed sid err wt (a, w) = Ret (a', w')"
  shows "quiet a a' \<and> kept w w'"
proof -
  let ?w = "w\<lparr>connAPNS := None, bConnectionGood := False\<rparr>"
  from assms obtain a1 a2 where
    s1: "logPrint a sid ''Establishing connection'' = Ret a1"
    and s2: "logPrintf a1 sid ('' Error: '' @ err @ [CHR 0x0A]) = Ret a2"
    and s3: "(if wt = DoneClosed \<and> chanDone a2 = Some Closed
              then bindO (logPrintln a2 sid [''Received done close'']) (\<lambda>a''.
                   inner_top sid (a'', ?w\<lparr>bShutdown := True\<rparr>))
              else outer_top sid (a2, ?w)) = Ret (a', w')"
    unfolding on_connect_failed_def bindO_Ret fst_conv snd_conv Let_def by blast
  have q: "quiet a a2" using logPrint_quiet [OF s1] logPrintf_quiet [OF s2] by (rule quiet_trans)
  have "quiet a2 a' \<and> kept w w'"
  proof (cases "wt = DoneClosed \<and> chanDone a2 = Some Closed")
    case True
    with s3 obtain a3 where l: "logPrintln a2 sid [''Received done close''] = Ret a3"
      and t: "inner_top sid (a3, ?w\<lparr>bShutdown := True\<rparr>) = Ret (a', w')"
      by (auto simp: bindO_Ret)
    from inner_top_effect [OF t] logPrintln_quiet [OF l] show ?thesis
      by (auto intro: quiet_trans simp: kept_def)
  next
    case False
    with s3 have "outer_top sid (a2, ?w) = Ret (a', w')" by auto
    from outer_top_effect [OF this] show ?thesis by (auto simp: kept_def)
  qed
  with q show ?thesis by (auto intro: quiet_trans)
qed

lemma on_done_effect:
  assumes "on_done sid (a, w) = Ret (a', w')"
  shows "quiet a a' \<and> kept w w'"
proof (cases "chanDone a = Some Closed")
  case True
  with assms obtain a1 where l: "logPrintln a sid [''Done channel is closed. Closing connection.''] = Ret a1"
    and t: "inner_top sid (a1, w\<lparr>disconnected := disconnected w @ (case connAPNS w of None \<Rightarrow> [] | Some c \<Rightarrow> [c]),
                                      bShutdown := True\<rparr>) = Ret (a', w')"
    by (auto simp: on_done_def bindO_Ret)
  from inner_top_effect [OF t] logPrintln_quiet [OF l] show ?thesis
    by (auto intro: quiet_trans simp: kept_def)
next
  case False
  with assms show ?thesis by (auto simp: on_done_def quiet_refl kept_refl)
qed

lemma on_epilogue_timeout_effect:
  assumes "on_epilogue_timeout sid (a, w) = Ret (a', w')"
  shows "quiet a a' \<and> kept w w'"
proof -
  from assms obtain a1 where l: "logPrint a sid ''.'' = Ret a1" and t: "finish sid (a1, w) = Ret (a', w')"
    by (auto simp: on_epilogue_timeout_def bindO_Ret)
  from finish_effect [OF t] logPrint_quiet [OF l] show ?thesis by (auto intro: quiet_trans)
qed

lemma on_epilogue_closure_effect:
  assumes "on_epilogue_closure sid ce (a, w) = Ret (a', w')"
  shows "frame a a' \<and> (status a \<noteq> ApnsActive \<longrightarrow> quiet a a') \<and> kept w w'"
proof -
  from assms obtain a1 a2 where l: "logPrintln a sid [''Closing channel''] = Ret a1"
    and h: "handleCloseError a1 ce sid (payloadCache w) (intPayloadIdx w) = Ret a2"
    and t: "finish sid (a2, w) = Ret (a', w')"
    by (auto simp: on_epilogue_closure_def bindO_Ret)
  from finish_effect [OF t] logPrintln_quiet [OF l] handleCloseError_frame [OF h]
  show ?thesis by (auto simp: quiet_def frame_def)
qed

lemma on_closure_effect:
  assumes "on_closure sid ce (a, w) = Ret (a', w')"
  shows "frame a a' \<and> (status a \<noteq> ApnsActive \<longrightarrow> quiet a a') \<and>
         kept (w\<lparr>exponentialBackoff := backoff_after_closure (exponentialBackoff w)\<rparr>) w'"
proof -
  let ?w = "w\<lparr>exponentialBackoff := backoff_after_closure (exponentialBackoff w)\<rparr>"
  from assms obtain a1 a2 where l: "logPrintln a sid [''Received error, closing connection''] = Ret a1"
    and h: "handleCloseError a1 ce sid (payloadCache ?w) (intPayloadIdx ?w) = Ret a2"
    and t: "inner_top sid (a2, ?w\<lparr>bConnectionGood := False\<rparr>) = Ret (a', w')"
    by (auto simp: on_closure_def bindO_Ret Let_def)
  from inner_top_effect [OF t] logPrintln_quiet [OF l] handleCloseError_frame [OF h]
  show ?thesis by (auto simp: quiet_def frame_def kept_def)
qed

lemma send_and_cache_effect:
  "send_and_cache w p = Ret w' \<Longrightarrow>
     wire w' = wire w @ [p] \<and> exponentialBackoff w' = 1 \<and> intCacheSize w' = intCacheSize w"
  by (auto simp: send_and_cache_def Let_def split: if_splits)

lemma on_payload_effect:
  assumes "on_payload sid r (a, w) = Ret (a', w')"
  shows "frame a a' \<and>
         (chan_recv (chanSend a) = None \<and> a' = a \<and> w' = w \<or>
          (\<exists>p c wm. chan_recv (chanSend a) = Some (p, c) \<and> chanSend a' = c \<and> kept wm w' \<and>
             (if r = TimedOut then wm = w else send_and_cache w p = Ret wm)))"
proof (cases "chan_recv (chanSend a)")
  case None
  with assms show ?thesis by (simp add: on_payload_def frame_def)
next
  case (Some pc)
  obtain p c where pc: "pc = (p, c)" by (cases pc)
  from assms Some pc obtain a1 wm where
    l: "logPrintf (a\<lparr>chanSend := c\<rparr>) sid (fmt_push p) = Ret a1"
    and m: "(if r = TimedOut then Ret w else send_and_cache w p) = Ret wm"
    and t: "inner_top sid (a1, wm) = Ret (a', w')"
    by (auto simp: on_payload_def bindO_Ret cong: if_cong)
  from m have m': "if r = TimedOut then wm = w else send_and_cache w p = Ret wm"
    by (auto split: if_splits)
  from inner_top_effect [OF t] logPrintf_quiet [OF l] have
    "frame a a'" "chanSend a' = c" "kept wm w'"
    by (auto simp: quiet_def frame_def)
  with Some pc m' show ?thesis by blast
qed

section \<open>The inner send loop\<close>

lemma at_same: "at w = x \<Longrightarrow> w\<lparr>at := x\<rparr> = w"
  by (cases w) simp

text \<open>
  The first case of the inner \<open>select\<close> receives the payload from the shared send queue
  before it tries the transport, so the payload has left the queue in both branches. If
  the hand-over does not complete within the backoff delay, the worker is as before:
  nothing is sent or cached, cursor and backoff stay. On a hand-over the payload goes to
  the transport and into the cache at the advanced cursor, and the backoff is 1.
\<close>

lemma inner_send_consumes_item:
  assumes pc: "at w = AtSelect" "bConnectionGood w" "\<not> bShutdown w"
    and q: "chanSend a = Some c" "buf c = p # rest"
    and lg: "log_room a 1"
    and cache: "0 < intCacheSize w" "int (length (payloadCache w)) = intCacheSize w"
      "0 \<le> intPayloadIdx w" "intPayloadIdx w < intCacheSize w"
  shows "\<exists>l. launchSocket_step sid (PayloadReady TimedOut) (a, w) =
               Ret (a\<lparr>chanSend := Some (c\<lparr>buf := rest\<rparr>), chanLog := l\<rparr>, w) \<and>
             launchSocket_step sid (PayloadReady Accepted) (a, w) =
               Ret (a\<lparr>chanSend := Some (c\<lparr>buf := rest\<rparr>), chanLog := l\<rparr>,
                    w\<lparr>wire := wire w @ [p],
                      intPayloadIdx := (intPayloadIdx w + 1) mod intCacheSize w,
                      payloadCache := (payloadCache w)[nat ((intPayloadIdx w + 1) mod intCacheSize w) := p],
                      exponentialBackoff := 1\<rparr>)"
proof -
  let ?a = "a\<lparr>chanSend := Some (c\<lparr>buf := rest\<rparr>)\<rparr>"
  let ?i = "(intPayloadIdx w + 1) mod intCacheSize w"
  let ?w = "w\<lparr>wire := wire w @ [p], intPayloadIdx := ?i,
              payloadCache := (payloadCache w)[nat ?i := p], exponentialBackoff := 1\<rparr>"
  have rv: "chan_recv (chanSend a) = Some (p, Some (c\<lparr>buf := rest\<rparr>))"
    using q by (simp add: chan_recv_def)
  have "log_room ?a (Suc 0)" using lg by (simp add: log_room_def)
  from logPrintf_room [OF this, of sid "fmt_push p"] obtain l where
    l: "logPrintf ?a sid (fmt_push p) = Ret (?a\<lparr>chanLog := l\<rparr>)" by blast
  have sc: "send_and_cache w p = Ret ?w"
    using cache by (simp add: send_and_cache_def smod_nonneg Let_def)
  have t1: "inner_top sid (?a\<lparr>chanLog := l\<rparr>, w) = Ret (?a\<lparr>chanLog := l\<rparr>, w)"
    using pc by (simp add: inner_top_def at_same)
  have t2: "inner_top sid (?a\<lparr>chanLog := l\<rparr>, ?w) = Ret (?a\<lparr>chanLog := l\<rparr>, ?w)"
    using pc by (simp add: inner_top_def at_same)
  have "launchSocket_step sid (PayloadReady TimedOut) (a, w) = Ret (?a\<lparr>chanLog := l\<rparr>, w)"
    using pc by (simp add: on_payload_def rv l t1)
  moreover have "launchSocket_step sid (PayloadReady Accepted) (a, w) = Ret (?a\<lparr>chanLog := l\<rparr>, ?w)"
    using pc by (simp add: on_payload_def rv l sc t2)
  ultimately show ?thesis by blast
qed

text \<open>With logging on: the entry for A is queued, A leaves the send queue either way.\<close>

lemma inner_send_consumes_item_example:
  "\<exists>l. launchSocket_step 1 (PayloadReady TimedOut)
          ((live True)\<lparr>chanSend := Some \<lparr>buf = [pay ''A'', pay ''B''], cap = 100\<rparr>\<rparr>, connected 0) =
          Ret ((live True)\<lparr>chanSend := Some \<lparr>buf = [pay ''B''], cap = 100\<rparr>, chanLog := l\<rparr>, connected 0) \<and>
        launchSocket_step 1 (PayloadReady Accepted)
          ((live True)\<lparr>chanSend := Some \<lparr>buf = [pay ''A'', pay ''B''], cap = 100\<rparr>\<rparr>, connected 0) =
          Ret ((live True)\<lparr>chanSend := Some \<lparr>buf = [pay ''B''], cap = 100\<rparr>, chanLog := l\<rparr>,
               (connected 0)\<lparr>wire := [pay ''A''], intPayloadIdx := 0,
                              payloadCache := (replicate 32 zeroPayload)[0 := pay ''A''],
                              exponentialBackoff := 1\<rparr>)"
  using inner_send_consumes_item [of "connected 0"
      "(live True)\<lparr>chanSend := Some \<lparr>buf = [pay ''A'', pay ''B''], cap = 100\<rparr>\<rparr>"
      "\<lparr>buf = [pay ''A'', pay ''B''], cap = 100\<rparr>" "pay ''A''" "[pay ''B'']" 1]
  by (simp add: connected_def launchSocket_locals_def locals_def live_def log_room_def)

text \<open>
  Claim C3 against the code. The claim says that a payload whose hand-over times out is
  still on the shared send queue and is tried again; the comment at \<open>exponentialBackoff\<close>
  speaks of the seconds between sending retries, and the closure case puts lost payloads
  back on the queue. The timeout branch does not: A is submitted and is the only payload
  queued, the worker takes it and the hand-over times out, and A is then neither on the
  queue nor on the wire nor in the cache. No later step can send it.
\<close>

theorem inner_send_timeout_loses_item:
  "pushOne (live False) (pay ''A'') = Ret ((live False)\<lparr>chanSend := Some \<lparr>buf = [pay ''A''], cap = 100\<rparr>\<rparr>) \<and>
   launchSocket_step 1 (PayloadReady TimedOut)
     ((live False)\<lparr>chanSend := Some \<lparr>buf = [pay ''A''], cap = 100\<rparr>\<rparr>, connected 0)
     = Ret (live False, connected 0) \<and>
   chanSend (live False) = Some \<lparr>buf = [], cap = 100\<rparr> \<and>
   wire (connected 0) = [] \<and>
   payloadCache (connected 0) = replicate 32 zeroPayload"
proof (intro conjI)
  show "pushOne (live False) (pay ''A'') = Ret ((live False)\<lparr>chanSend := Some \<lparr>buf = [pay ''A''], cap = 100\<rparr>\<rparr>)"
    by (simp add: pushOne_def live_def chan_send_def)
  show "launchSocket_step 1 (PayloadReady TimedOut)
     ((live False)\<lparr>chanSend := Some \<lparr>buf = [pay ''A''], cap = 100\<rparr>\<rparr>, connected 0)
     = Ret (live False, connected 0)"
    by (simp add: connected_def launchSocket_locals_def locals_def on_payload_def chan_recv_def
        live_def logPrintf_def inner_top_def)
  show "chanSend (live False) = Some \<lparr>buf = [], cap = 100\<rparr>" by (simp add: live_def)
  show "wire (connected 0) = []" by (simp add: connected_def launchSocket_locals_def locals_def)
  show "payloadCache (connected 0) = replicate 32 zeroPayload"
    by (simp add: connected_def launchSocket_locals_def locals_def)
qed

section \<open>Backoff\<close>


lemma chan_recv_queue:
  "chan_recv (chanSend a) = Some (p, c) \<Longrightarrow> chanSend a' = c \<Longrightarrow> queue a = p # queue a'"
  by (auto simp: chan_recv_def queue_def split: option.splits list.splits)



section \<open>Launching twice\<close>

lemma write_log_effect: "write_log a prefix t = Ret a' \<Longrightarrow> a' = a\<lparr>fileLog := fileLog a'\<rparr>"
  by (auto simp: write_log_def split: option.splits)

lemma write_log_same: "write_log a prefix t = Ret a' \<Longrightarrow> same_but_file a a'"
  by (auto simp: write_log_def same_but_file_def split: option.splits)

lemma log_feedback_same: "log_feedback a fs = Ret a' \<Longrightarrow> same_but_file a a'"
proof (induction fs arbitrary: a)
  case Nil
  then show ?case by (simp add: same_but_file_def)
next
  case (Cons f fs)
  obtain ts token where f: "f = (ts, token)" by (cases f)
  from Cons.prems f obtain a1 where
    w: "write_log a ''APN: '' (Sprintln [''TimeStamp and Token'', fmt_int (int ts), token]) = Ret a1"
    and r: "log_feedback a1 fs = Ret a'"
    by (auto simp: bindO_Ret)
  from write_log_same [OF w] Cons.IH [OF r] show ?case
    by (simp add: same_but_file_def)
qed

lemma getBadTokens_same: "getBadTokens w a = Ret (e, a') \<Longrightarrow> same_but_file a a'"
  by (auto simp: getBadTokens_def bindO_Ret same_but_file_def split: sum.splits
      dest!: write_log_same log_feedback_same)

lemma launch_nil_status:
  assumes "launch w lg a = Ret (None, a1, ts)"
  shows "status a1 = ApnsActive \<or> status a1 = ApnsNoCerts"
  using assms
  by (auto simp: launch_def Let_def bindO_Ret split: if_splits option.splits)

text \<open>
  The method \<open>launch\<close> on a manager whose status is Active or NoCerts returns nil and
  starts no worker; it stores its argument in \<open>isLogging\<close> and changes nothing else.
  After a \<open>launch\<close> that returned nil, a second \<open>launch\<close> on the same manager is such a
  call.
\<close>

lemma launch_again_starts_nothing:
  "(status a = ApnsActive \<or> status a = ApnsNoCerts \<longrightarrow>
      launch w lg a = Ret (None, a\<lparr>isLogging := lg\<rparr>, [])) \<and>
   (launch w lg a = Ret (None, a1, ts) \<longrightarrow>
      launch w' lg' a1 = Ret (None, a1\<lparr>isLogging := lg'\<rparr>, []))"
proof (intro conjI impI)
  assume "status a = ApnsActive \<or> status a = ApnsNoCerts"
  then show "launch w lg a = Ret (None, a\<lparr>isLogging := lg\<rparr>, [])"
    by (auto simp: launch_def)
next
  assume "launch w lg a = Ret (None, a1, ts)"
  from launch_nil_status [OF this] show "launch w' lg' a1 = Ret (None, a1\<lparr>isLogging := lg'\<rparr>, [])"
    by (auto simp: launch_def)
qed

text \<open>The first launch starts the two workers, the second none.\<close>

lemma launch_again_starts_nothing_example:
  "launch world0 True (newConnection 7 ''app'' None) = Ret (None, newConnection 7 ''app'' None, []) \<and>
   launch world0 True (newConnection 7 ''app'' (Some cert0)) = Ret (None, live True, [LaunchSocket 1, LaunchSocket 2]) \<and>
   launch world0 True (live True) = Ret (None, live True, [])"
proof -
  have n: "status (newConnection 7 ''app'' None) = ApnsActive \<or> status (newConnection 7 ''app'' None) = ApnsNoCerts"
    by (simp add: newConnection_def)
  from launch_again_starts_nothing [of "newConnection 7 ''app'' None" world0 True] n
  have first: "launch world0 True (newConnection 7 ''app'' None) =
                 Ret (None, (newConnection 7 ''app'' None)\<lparr>isLogging := True\<rparr>, [])" by blast
  have l: "launch world0 True (newConnection 7 ''app'' (Some cert0)) = Ret (None, live True, [LaunchSocket 1, LaunchSocket 2])"
    by (rule launch_world0)
  from launch_again_starts_nothing [of "newConnection 7 ''app'' (Some cert0)" world0 True "live True"
      "[LaunchSocket 1, LaunchSocket 2]" world0 True] l
  have second: "launch world0 True (live True) = Ret (None, (live True)\<lparr>isLogging := True\<rparr>, [])" by blast
  from first second l show ?thesis by (simp add: live_def newConnection_def)
qed

text \<open>
  \<open>launch\<close> assigns \<open>isLogging\<close> before it looks at the status, so a second \<open>launch\<close> on
  the same manager with the other flag changes that field.
\<close>

lemma launch_again_sets_isLogging_example:
  "launch world0 True (newConnection 7 ''app'' (Some cert0)) = Ret (None, live True, [LaunchSocket 1, LaunchSocket 2]) \<and>
   launch world0 False (live True) = Ret (None, live False, []) \<and>
   isLogging (live True) \<and> \<not> isLogging (live False)"
proof (intro conjI)
  show "launch world0 True (newConnection 7 ''app'' (Some cert0)) = Ret (None, live True, [LaunchSocket 1, LaunchSocket 2])"
    by (rule launch_world0)
  show "launch world0 False (live True) = Ret (None, live False, [])"
    by (simp add: launch_def live_def)
  show "isLogging (live True)" by (simp add: live_def)
  show "\<not> isLogging (live False)" by (simp add: live_def)
qed

section \<open>Submitting after close\<close>

lemma close_effect:
  "close a = Ret a' \<Longrightarrow> status a' \<noteq> ApnsActive \<and> chanSend a' = chanSend a"
  by (auto simp: close_def bindO_Ret split: if_splits)

lemma pushOne_inactive: "status a \<noteq> ApnsActive \<Longrightarrow> pushOne a p = Ret a"
  by (simp add: pushOne_def)

lemma step_inactive:
  assumes dead: "status a \<noteq> ApnsActive" and st: "launchSocket_step sid ev (a, w) = Ret (a', w')"
  shows "status a' = status a \<and> set (queue a') \<subseteq> set (queue a) \<and> set (wire w') \<subseteq> set (wire w) \<union> set (queue a)"
proof (cases "launchSocket_step sid ev (a, w) = Ret (a, w)")
  case True
  with st show ?thesis by simp
next
  case False
  show ?thesis
  proof (cases ev)
    case (Connected c)
    with st False have "on_connected sid c (a, w) = Ret (a', w')" by (simp split: if_splits)
    from on_connected_effect [OF this] show ?thesis by (auto simp: kept_def dest: quiet_queue)
  next
    case (ConnectFailed err wt)
    with st False have "on_connect_failed sid err wt (a, w) = Ret (a', w')" by (simp split: if_splits)
    from on_connect_failed_effect [OF this] show ?thesis by (auto simp: kept_def dest: quiet_queue)
  next
    case (PayloadReady r)
    with st False have "on_payload sid r (a, w) = Ret (a', w')" by (simp split: if_splits)
    from on_payload_effect [OF this] have f: "frame a a'"
      and alt: "chan_recv (chanSend a) = None \<and> a' = a \<and> w' = w \<or>
          (\<exists>p c wm. chan_recv (chanSend a) = Some (p, c) \<and> chanSend a' = c \<and> kept wm w' \<and>
             (if r = TimedOut then wm = w else send_and_cache w p = Ret wm))"
      by simp_all
    from alt show ?thesis
    proof
      assume "chan_recv (chanSend a) = None \<and> a' = a \<and> w' = w"
      then show ?thesis by simp
    next
      assume "\<exists>p c wm. chan_recv (chanSend a) = Some (p, c) \<and> chanSend a' = c \<and> kept wm w' \<and>
             (if r = TimedOut then wm = w else send_and_cache w p = Ret wm)"
      then obtain p c wm where rv: "chan_recv (chanSend a) = Some (p, c)" and c: "chanSend a' = c"
        and k: "kept wm w'" and m: "if r = TimedOut then wm = w else send_and_cache w p = Ret wm"
        by blast
      from chan_recv_queue [OF rv c] have q: "queue a = p # queue a'" .
      from m have "set (wire wm) \<subseteq> set (wire w) \<union> {p}"
        by (auto dest: send_and_cache_effect split: if_splits)
      with k q f show ?thesis by (auto simp: kept_def frame_def)
    qed
  next
    case (Closure ce)
    with st False have "on_closure sid ce (a, w) = Ret (a', w')" by (simp split: if_splits)
    from on_closure_effect [OF this] dead show ?thesis by (auto simp: kept_def dest: quiet_queue)
  next
    case DoneSignal
    with st False have "on_done sid (a, w) = Ret (a', w')" by (simp split: if_splits)
    from on_done_effect [OF this] show ?thesis by (auto simp: kept_def dest: quiet_queue)
  next
    case EpilogueTimeout
    with st False have "on_epilogue_timeout sid (a, w) = Ret (a', w')" by (simp split: if_splits)
    from on_epilogue_timeout_effect [OF this] show ?thesis by (auto simp: kept_def dest: quiet_queue)
  next
    case (EpilogueClosure ce)
    with st False have "on_epilogue_closure sid ce (a, w) = Ret (a', w')" by (simp split: if_splits)
    from on_epilogue_closure_effect [OF this] dead show ?thesis by (auto simp: kept_def dest: quiet_queue)
  qed
qed

lemma act_inactive:
  assumes dead: "status (mgr s) \<noteq> ApnsActive" and st: "act x s = Ret s'"
  shows "status (mgr s') \<noteq> ApnsActive \<and> set (queue (mgr s')) \<subseteq> set (queue (mgr s)) \<and>
         wires s' \<subseteq> wires s \<union> set (queue (mgr s))"
proof (cases x)
  case (Submit p)
  with st dead show ?thesis by (auto simp: pushOne_inactive wires_def)
next
  case Close
  with st dead show ?thesis by (auto simp: close_def wires_def)
next
  case (Work sid ev)
  show ?thesis
  proof (cases "sid = 1")
    case True
    with st Work obtain a' w' where r: "launchSocket_step 1 ev (mgr s, worker1 s) = Ret (a', w')"
      and s': "s' = s\<lparr>mgr := a', worker1 := w'\<rparr>"
      by (auto simp: bindO_Ret)
    from step_inactive [OF dead r] dead s' show ?thesis by (auto simp: wires_def)
  next
    case False
    show ?thesis
    proof (cases "sid = 2")
      case True
      with st Work obtain a' w' where r: "launchSocket_step 2 ev (mgr s, worker2 s) = Ret (a', w')"
        and s': "s' = s\<lparr>mgr := a', worker2 := w'\<rparr>"
        by (auto simp: bindO_Ret)
      from step_inactive [OF dead r] dead s' show ?thesis by (auto simp: wires_def)
    next
      case False
      with \<open>sid \<noteq> 1\<close> st Work dead show ?thesis by auto
    qed
  qed
qed

lemma run_inactive:
  "status (mgr s) \<noteq> ApnsActive \<Longrightarrow> run xs s = Ret s' \<Longrightarrow>
     status (mgr s') \<noteq> ApnsActive \<and> set (queue (mgr s')) \<subseteq> set (queue (mgr s)) \<and>
     wires s' \<subseteq> wires s \<union> set (queue (mgr s))"
proof (induction xs arbitrary: s)
  case Nil
  then show ?case by simp
next
  case (Cons x xs)
  from Cons.prems(2) obtain s1 where a: "act x s = Ret s1" and r: "run xs s1 = Ret s'"
    by (auto simp: bindO_Ret)
  from act_inactive [OF Cons.prems(1) a] have
    d1: "status (mgr s1) \<noteq> ApnsActive" and q1: "set (queue (mgr s1)) \<subseteq> set (queue (mgr s))"
    and w1: "wires s1 \<subseteq> wires s \<union> set (queue (mgr s))" by simp_all
  from Cons.IH [OF d1 r] q1 w1 show ?case by blast
qed

text \<open>
  Claim C8. \<open>close\<close> leaves a status other than Active, and \<open>pushOne\<close> then returns the
  manager as it is: the payload is not enqueued; the same holds for \<open>PushOne\<close> after
  \<open>CloseConnection\<close> on the registry. So after \<open>Close\<close>, whatever is submitted
  and whatever the two workers do (there is no launch among the actions), the send queue
  only loses payloads, and the transports get only payloads that were on a wire or on
  the queue when the manager was closed.
\<close>

theorem submit_after_close_is_dropped:
  "(close a = Ret a' \<longrightarrow> status a' \<noteq> ApnsActive \<and> pushOne a' p = Ret a') \<and>
   (CloseConnection i m = Ret m' \<longrightarrow> PushOne i p m' = Ret m') \<and>
   (run (Close # xs) s = Ret s' \<longrightarrow>
      status (mgr s') \<noteq> ApnsActive \<and> set (queue (mgr s')) \<subseteq> set (queue (mgr s)) \<and>
      wires s' \<subseteq> wires s \<union> set (queue (mgr s)))"
proof (intro conjI impI)
  assume "close a = Ret a'"
  from close_effect [OF this] show "status a' \<noteq> ApnsActive" by simp
  then show "pushOne a' p = Ret a'" by (rule pushOne_inactive)
next
  assume c: "CloseConnection i m = Ret m'"
  show "PushOne i p m' = Ret m'"
  proof (cases "m i")
    case None
    with c show ?thesis by (simp add: CloseConnection_def PushOne_def)
  next
    case (Some c0)
    with c obtain c1 where c1: "close c0 = Ret c1" and m': "m' = m(i \<mapsto> c1)"
      by (auto simp: CloseConnection_def bindO_Ret)
    from close_effect [OF c1] have "pushOne c1 p = Ret c1" by (simp add: pushOne_inactive)
    with m' show ?thesis by (simp add: PushOne_def)
  qed
next
  assume "run (Close # xs) s = Ret s'"
  then obtain a1 where c: "close (mgr s) = Ret a1" and r: "run xs (s\<lparr>mgr := a1\<rparr>) = Ret s'"
    by (auto simp: bindO_Ret)
  from close_effect [OF c] have d: "status (mgr (s\<lparr>mgr := a1\<rparr>)) \<noteq> ApnsActive"
    and q: "queue (mgr (s\<lparr>mgr := a1\<rparr>)) = queue (mgr s)" by (simp_all add: queue_def)
  from run_inactive [OF d r] q show "status (mgr s') \<noteq> ApnsActive"
    "set (queue (mgr s')) \<subseteq> set (queue (mgr s))" "wires s' \<subseteq> wires s \<union> set (queue (mgr s))"
    by (simp_all add: wires_def)
qed

text \<open>
  B waits on the queue when the manager is closed, and A is submitted after that. Worker
  1 connects, hands over what it finds, sees the done signal and leaves: A is neither on
  a wire nor on the queue.
\<close>

theorem submit_after_close_is_dropped_witness:
  "pushOne (closed False) (pay ''A'') = Ret (closed False) \<and>
   PushOne 7 (pay ''A'') [7 \<mapsto> closed False] = Ret [7 \<mapsto> closed False] \<and>
   (\<exists>s'. run [Close, Submit (pay ''A''), Work 1 (Connected 0), Work 1 (PayloadReady Accepted),
               Work 1 (PayloadReady Accepted), Work 1 DoneSignal, Work 1 EpilogueTimeout]
              ((started (live False))\<lparr>mgr := (live False)\<lparr>chanSend := Some \<lparr>buf = [pay ''B''], cap = 100\<rparr>\<rparr>\<rparr>) = Ret s' \<and>
          at (worker1 s') = Exited \<and> wire (worker1 s') = [pay ''B''] \<and>
          pay ''A'' \<notin> wires s' \<and> pay ''A'' \<notin> set (queue (mgr s')))"
proof (intro conjI)
  from submit_after_close_is_dropped [of "live False" "closed False" "pay ''A''"] close_live [of False]
  show "pushOne (closed False) (pay ''A'') = Ret (closed False)" by blast
next
  have "CloseConnection 7 [7 \<mapsto> live False] = Ret [7 \<mapsto> closed False]"
    by (simp add: CloseConnection_def close_live)
  with submit_after_close_is_dropped [where i = 7 and m = "[7 \<mapsto> live False]"
      and m' = "[7 \<mapsto> closed False]" and p = "pay ''A''"]
  show "PushOne 7 (pay ''A'') [7 \<mapsto> closed False] = Ret [7 \<mapsto> closed False]" by blast
next
  let ?xs = "[Submit (pay ''A''), Work 1 (Connected 0), Work 1 (PayloadReady Accepted),
               Work 1 (PayloadReady Accepted), Work 1 DoneSignal, Work 1 EpilogueTimeout]"
  let ?s = "(started (live False))\<lparr>mgr := (live False)\<lparr>chanSend := Some \<lparr>buf = [pay ''B''], cap = 100\<rparr>\<rparr>\<rparr>"
  have "\<exists>s'. run (Close # ?xs) ?s = Ret s' \<and> at (worker1 s') = Exited \<and> wire (worker1 s') = [pay ''B'']"
    by (simp add: started_def live_def close_def chan_close_def pushOne_def
        launchSocket_locals_def locals_def on_connected_def logPrint_def logPrintln_def logPrintf_def
        inner_top_def outer_top_def on_payload_def chan_recv_def on_done_def
        on_epilogue_timeout_def finish_def send_and_cache_def smod_int_alt_def)
  then obtain s' where r: "run (Close # ?xs) ?s = Ret s'"
    and e: "at (worker1 s') = Exited" "wire (worker1 s') = [pay ''B'']" by blast
  from submit_after_close_is_dropped [where xs = ?xs and s = ?s and s' = s'] r
  have "set (queue (mgr s')) \<subseteq> set (queue (mgr ?s))"
    "wires s' \<subseteq> wires ?s \<union> set (queue (mgr ?s))"
    by blast+
  moreover have "queue (mgr ?s) = [pay ''B'']" "wires ?s = {}"
    by (simp_all add: started_def live_def queue_def wires_def launchSocket_locals_def locals_def)
  ultimately have "pay ''A'' \<notin> set (queue (mgr s'))" "pay ''A'' \<notin> wires s'"
    by (auto simp: pay_def)
  with r e show "\<exists>s'. run (Close # ?xs) ?s = Ret s' \<and>
          at (worker1 s') = Exited \<and> wire (worker1 s') = [pay ''B''] \<and>
          pay ''A'' \<notin> wires s' \<and> pay ''A'' \<notin> set (queue (mgr s'))" by blast
qed

section \<open>The public surface never makes a manager without credentials\<close>

lemma launch_result:
  assumes "launch w lg a = Ret (e, a1, ts)" and "status a = ApnsCertsFound"
  shows "cert a1 = cert a \<and>
         (if e = None then status a1 = ApnsActive \<and> ts = [LaunchSocket 1, LaunchSocket 2]
          else status a1 = ApnsCertsFound \<and> ts = [])"
proof -
  from assms obtain c where c: "cert a = Some c"
    by (auto simp: launch_def Let_def split: option.splits)
  let ?a1 = "a\<lparr>isLogging := lg,
                cfgAPNS := Some \<lparr>CertificateBytes = Cert c, KeyBytes = RSAKey c, GatewayHost = pushURL w\<rparr>,
                cfgFeedback := Some \<lparr>CertificateBytes = Cert c, KeyBytes = RSAKey c, GatewayHost = feedbackURL w\<rparr>\<rparr>"
  show ?thesis
  proof (cases "openFileError w")
    case (Some err)
    with assms c show ?thesis by (cases e) (auto simp: launch_def Let_def)
  next
    case None
    with assms c obtain e2 a2 where
      g: "getBadTokens w (?a1\<lparr>fileLog := Some []\<rparr>) = Ret (e2, a2)"
      and r: "(case e2 of Some x \<Rightarrow> Ret (Some x, a2, [])
               | None \<Rightarrow> Ret (None,
                           a2\<lparr>chanDone := Some Open, chanDoneLog := Some Open,
                              chanSend := Some \<lparr>buf = [], cap = 100\<rparr>,
                              chanLog := Some \<lparr>buf = [], cap = 100\<rparr>,
                              loggers := [1 \<mapsto> ''APN1: '', 2 \<mapsto> ''APN2: ''],
                              status := ApnsActive\<rparr>,
                           [LaunchSocket 1, LaunchSocket 2])) = Ret (e, a1, ts)"
      by (auto simp: launch_def Let_def bindO_Ret)
    from getBadTokens_same [OF g] assms(2) c have "cert a2 = cert a" "status a2 = ApnsCertsFound"
      by (simp_all add: same_but_file_def)
    with r show ?thesis by (auto split: option.splits)
  qed
qed

lemma LaunchConnection_starts_workers:
  assumes "LaunchConnection w i s 1 appCert lg m = Ret (None, m', ts)"
  shows "ts = [LaunchSocket 1, LaunchSocket 2]"
proof -
  have st: "status (newConnection i s (Some appCert)) = ApnsCertsFound"
    by (simp add: newConnection_def)
  from assms obtain e1 c ts1 where
    l: "launch w lg (newConnection i s (Some appCert)) = Ret (e1, c, ts1)"
    and k: "(case e1 of Some x \<Rightarrow> Ret (Some x, m, ts1) | None \<Rightarrow> Ret (None, m(i \<mapsto> c), ts1)) = Ret (None, m', ts)"
    by (auto simp: LaunchConnection_def bindO_Ret)
  from k have "e1 = None" "ts1 = ts" by (auto split: option.splits)
  with launch_result [OF l st] show ?thesis by simp
qed

text \<open>
  Claim C7 against the code. The method \<open>launch\<close> has the guard the claim describes: on
  the Active manager it starts nothing. But the program calls \<open>launch\<close> only from
  \<open>LaunchConnection\<close>, which makes a new manager with status CertsFound at every call and
  never looks at the one registered. Two calls in a row for the same application,
  without a close between them, each start \<open>launchSocket(1)\<close> and \<open>launchSocket(2)\<close>:
  two pairs of workers, the first of which the registry no longer reaches.
\<close>

theorem LaunchConnection_twice_starts_two_pairs:
  "LaunchConnection world0 7 ''app'' 1 cert0 True Map.empty =
     Ret (None, [7 \<mapsto> live True], [LaunchSocket 1, LaunchSocket 2]) \<and>
   LaunchConnection world0 7 ''app'' 1 cert0 True [7 \<mapsto> live True] =
     Ret (None, [7 \<mapsto> live True], [LaunchSocket 1, LaunchSocket 2]) \<and>
   launch world0 True (live True) = Ret (None, live True, [])"
proof (intro conjI)
  show "LaunchConnection world0 7 ''app'' 1 cert0 True Map.empty =
     Ret (None, [7 \<mapsto> live True], [LaunchSocket 1, LaunchSocket 2])"
    by (simp add: LaunchConnection_def launch_world0)
  show "LaunchConnection world0 7 ''app'' 1 cert0 True [7 \<mapsto> live True] =
     Ret (None, [7 \<mapsto> live True], [LaunchSocket 1, LaunchSocket 2])"
    by (simp add: LaunchConnection_def launch_world0)
  show "launch world0 True (live True) = Ret (None, live True, [])"
    by (simp add: launch_def live_def)
qed

text \<open>
  Claim C10. \<open>LaunchConnection\<close> hands \<open>newConnection\<close> the address of its parameter,
  which is never nil, so the manager it makes has status CertsFound whatever the
  certificate bytes are. Whatever \<open>LaunchConnection\<close> then returns, it either leaves the
  registry alone and starts nothing, or it registers a manager that holds the given
  credential, is Active, and has its two workers started: no manager with status NoCerts
  comes out of the public surface.
\<close>

theorem public_launch_never_NoCerts:
  "status (newConnection i s (Some appCert)) = ApnsCertsFound \<and>
   (LaunchConnection w i s en appCert lg m = Ret (e, m', ts) \<longrightarrow>
      (m' = m \<and> ts = []) \<or>
      (\<exists>c. m' = m(i \<mapsto> c) \<and> cert c = Some appCert \<and> status c = ApnsActive \<and>
           en = 1 \<and> e = None \<and> ts = [LaunchSocket 1, LaunchSocket 2]))"
proof (intro conjI impI)
  show st: "status (newConnection i s (Some appCert)) = ApnsCertsFound"
    by (simp add: newConnection_def)
  assume r: "LaunchConnection w i s en appCert lg m = Ret (e, m', ts)"
  show "(m' = m \<and> ts = []) \<or>
      (\<exists>c. m' = m(i \<mapsto> c) \<and> cert c = Some appCert \<and> status c = ApnsActive \<and>
           en = 1 \<and> e = None \<and> ts = [LaunchSocket 1, LaunchSocket 2])"
  proof (cases "en = 1")
    case False
    with r show ?thesis by (simp add: LaunchConnection_def)
  next
    case True
    with r obtain e1 c ts1 where
      l: "launch w lg (newConnection i s (Some appCert)) = Ret (e1, c, ts1)"
      and k: "(case e1 of Some x \<Rightarrow> Ret (Some x, m, ts1) | None \<Rightarrow> Ret (None, m(i \<mapsto> c), ts1)) = Ret (e, m', ts)"
      by (auto simp: LaunchConnection_def bindO_Ret)
    from launch_result [OF l st] have "cert c = Some appCert"
      and "if e1 = None then status c = ApnsActive \<and> ts1 = [LaunchSocket 1, LaunchSocket 2]
           else status c = ApnsCertsFound \<and> ts1 = []"
      by (simp_all add: newConnection_def)
    with k True show ?thesis by (auto split: option.splits if_splits)
  qed
qed

text \<open>A credential with no certificate bytes and no key bytes.\<close>

theorem public_launch_never_NoCerts_witness:
  "status (newConnection 7 ''app'' (Some cert0)) = ApnsCertsFound \<and>
   LaunchConnection world0 7 ''app'' 1 cert0 False Map.empty =
     Ret (None, [7 \<mapsto> live False], [LaunchSocket 1, LaunchSocket 2]) \<and>
   status (live False) = ApnsActive \<and> cert (live False) = Some cert0 \<and>
   Cert cert0 = [] \<and> RSAKey cert0 = []"
proof -
  have r: "LaunchConnection world0 7 ''app'' 1 cert0 False Map.empty =
           Ret (None, [7 \<mapsto> live False], [LaunchSocket 1, LaunchSocket 2])"
    by (simp add: LaunchConnection_def launch_world0)
  from public_launch_never_NoCerts [of 7 "''app''" cert0 world0 1 False Map.empty None
      "[7 \<mapsto> live False]" "[LaunchSocket 1, LaunchSocket 2]"] r
  have "status (newConnection 7 ''app'' (Some cert0)) = ApnsCertsFound"
    and "\<exists>c. [7::int \<mapsto> live False] = Map.empty(7 \<mapsto> c) \<and> cert c = Some cert0 \<and> status c = ApnsActive"
    by auto
  moreover have "\<And>c. [7::int \<mapsto> live False] = Map.empty(7 \<mapsto> c) \<Longrightarrow> c = live False"
    by (metis map_upd_eqD1)
  ultimately show ?thesis using r by (auto simp: cert0_def)
qed

section \<open>Runs of the two workers\<close>

lemmas machine_defs =
  started_def live_def closed_def launchSocket_locals_def locals_def
  close_def chan_close_def pushOne_def chan_send_def chan_recv_def
  logPrint_def logPrintln_def logPrintf_def enqueueLog_def
  on_connected_def on_connect_failed_def on_payload_def on_closure_def on_done_def
  on_epilogue_timeout_def on_epilogue_closure_def
  inner_top_def outer_top_def finish_def send_and_cache_def
  handleCloseError_def closure_of_def replay_loop.simps index_def
  backoff_after_closure_def backoffLimit_def smod_int_alt_def queue_def






lemma step_frame:
  assumes st: "launchSocket_step sid ev (a, w) = Ret (a', w')"
  shows "frame a a'"
proof (cases "launchSocket_step sid ev (a, w) = Ret (a, w)")
  case True
  with st show ?thesis by (simp add: frame_def)
next
  case False
  show ?thesis
  proof (cases ev)
    case (Connected c)
    with st False have "on_connected sid c (a, w) = Ret (a', w')" by (simp split: if_splits)
    from on_connected_effect [OF this] show ?thesis by (simp add: quiet_def)
  next
    case (ConnectFailed err wt)
    with st False have "on_connect_failed sid err wt (a, w) = Ret (a', w')" by (simp split: if_splits)
    from on_connect_failed_effect [OF this] show ?thesis by (simp add: quiet_def)
  next
    case (PayloadReady r)
    with st False have "on_payload sid r (a, w) = Ret (a', w')" by (simp split: if_splits)
    from on_payload_effect [OF this] show ?thesis by simp
  next
    case (Closure ce)
    with st False have "on_closure sid ce (a, w) = Ret (a', w')" by (simp split: if_splits)
    from on_closure_effect [OF this] show ?thesis by simp
  next
    case DoneSignal
    with st False have "on_done sid (a, w) = Ret (a', w')" by (simp split: if_splits)
    from on_done_effect [OF this] show ?thesis by (simp add: quiet_def)
  next
    case EpilogueTimeout
    with st False have "on_epilogue_timeout sid (a, w) = Ret (a', w')" by (simp split: if_splits)
    from on_epilogue_timeout_effect [OF this] show ?thesis by (simp add: quiet_def)
  next
    case (EpilogueClosure ce)
    with st False have "on_epilogue_closure sid ce (a, w) = Ret (a', w')" by (simp split: if_splits)
    from on_epilogue_closure_effect [OF this] show ?thesis by simp
  qed
qed

lemma act_keeps_file: "act x s = Ret s' \<Longrightarrow> fileLog (mgr s') = fileLog (mgr s)"
proof (cases x)
  case (Submit p)
  assume "act x s = Ret s'"
  with Submit show ?thesis by (auto simp: bindO_Ret frame_def dest!: pushOne_frame)
next
  case Close
  assume "act x s = Ret s'"
  with Close show ?thesis by (auto simp: bindO_Ret close_def split: if_splits)
next
  case (Work sid ev)
  assume "act x s = Ret s'"
  with Work show ?thesis
    by (auto simp: bindO_Ret frame_def split: if_splits dest!: step_frame)
qed

lemma run_keeps_file: "run xs s = Ret s' \<Longrightarrow> fileLog (mgr s') = fileLog (mgr s)"
proof (induction xs arbitrary: s)
  case Nil
  then show ?case by simp
next
  case (Cons x xs)
  then obtain s1 where "act x s = Ret s1" "run xs s1 = Ret s'" by (auto simp: bindO_Ret)
  with Cons.IH [of s1] act_keeps_file [of x s s1] show ?case by simp
qed

text \<open>
  Claim C5 against the code. \<open>launch\<close> starts \<open>launchSocket(1)\<close> and
  \<open>launchSocket(2)\<close> and nothing else: no \<open>go\<close> statement starts \<open>logListener\<close>. With
  logging on, what a worker reports stays on \<open>chanLog\<close> and the file keeps the one line
  that \<open>getBadTokens\<close> wrote directly; once 100 entries wait there, the next report
  blocks the worker.
\<close>

theorem launch_starts_no_logListener:
  "launch world0 True (newConnection 7 ''app'' (Some cert0)) =
     Ret (None, live True, [LaunchSocket 1, LaunchSocket 2]) \<and>
   LogListener \<notin> set [LaunchSocket 1, LaunchSocket 2] \<and>
   (\<exists>s'. run [Work 1 (Connected 0)] (started (live True)) = Ret s' \<and>
         fileLog (mgr s') = fileLog (live True) \<and>
         chanLog (mgr s') =
           Some \<lparr>buf = [\<lparr>socketID = 1, message = ''Establishing connection''\<rparr>,
                         \<lparr>socketID = 1, message = ''Connection established'' @ [CHR 0x0A]\<rparr>],
                  cap = 100\<rparr>) \<and>
   launchSocket_step 1 (Connected 0)
     ((live True)\<lparr>chanLog := Some \<lparr>buf = replicate 100 \<lparr>socketID = 2, message = ''.''\<rparr>, cap = 100\<rparr>\<rparr>,
      launchSocket_locals) = Blocked"
proof (intro conjI)
  show "launch world0 True (newConnection 7 ''app'' (Some cert0)) =
     Ret (None, live True, [LaunchSocket 1, LaunchSocket 2])" by (rule launch_world0)
  show "LogListener \<notin> set [LaunchSocket 1, LaunchSocket 2]" by simp
  show "\<exists>s'. run [Work 1 (Connected 0)] (started (live True)) = Ret s' \<and>
         fileLog (mgr s') = fileLog (live True) \<and>
         chanLog (mgr s') =
           Some \<lparr>buf = [\<lparr>socketID = 1, message = ''Establishing connection''\<rparr>,
                         \<lparr>socketID = 1, message = ''Connection established'' @ [CHR 0x0A]\<rparr>],
                  cap = 100\<rparr>"
    by (simp add: machine_defs)
  show "launchSocket_step 1 (Connected 0)
     ((live True)\<lparr>chanLog := Some \<lparr>buf = replicate 100 \<lparr>socketID = 2, message = ''.''\<rparr>, cap = 100\<rparr>\<rparr>,
      launchSocket_locals) = Blocked"
    by (simp add: machine_defs)
qed

text \<open>
  Claim C9 against the code. Each worker closes \<open>chanDoneLog\<close> itself at the end of
  \<open>launchSocket\<close>. After \<open>close\<close>, worker 1 leaves first: the stop signal is given while
  worker 2 still waits in its \<open>select\<close>, and worker 2 reports after it. When worker 2
  leaves, it closes the closed channel, which panics. A relay that takes the stop signal
  stops with the entries that are still queued.
\<close>

theorem stop_signal_closed_by_each_worker:
  "(\<exists>s'. run [Work 1 (Connected 0), Work 2 (Connected 1), Close,
              Work 1 DoneSignal, Work 1 EpilogueTimeout] (started (live True)) = Ret s' \<and>
         chanDoneLog (mgr s') = Some Closed \<and> at (worker1 s') = Exited \<and>
         at (worker2 s') = AtSelect \<and>
         (\<exists>s''. act (Work 2 DoneSignal) s' = Ret s'' \<and>
                (case chanLog (mgr s'') of Some c \<Rightarrow> length (buf c) | None \<Rightarrow> 0) =
                (case chanLog (mgr s') of Some c \<Rightarrow> length (buf c) | None \<Rightarrow> 0) + 2)) \<and>
   run [Work 1 (Connected 0), Work 2 (Connected 1), Close,
        Work 1 DoneSignal, Work 1 EpilogueTimeout,
        Work 2 DoneSignal, Work 2 EpilogueTimeout] (started (live True)) = Panic \<and>
   logListener [TakeDoneLog, TakeEntry]
     ((closed True)\<lparr>chanDoneLog := Some Closed,
                     chanLog := Some \<lparr>buf = [\<lparr>socketID = 2, message = ''Shutting down apns service'' @ [CHR 0x0A]\<rparr>], cap = 100\<rparr>\<rparr>,
      False) =
     Ret ((closed True)\<lparr>chanDoneLog := Some Closed,
                     chanLog := Some \<lparr>buf = [\<lparr>socketID = 2, message = ''Shutting down apns service'' @ [CHR 0x0A]\<rparr>], cap = 100\<rparr>\<rparr>,
          True)"
proof (intro conjI)
  show "\<exists>s'. run [Work 1 (Connected 0), Work 2 (Connected 1), Close,
              Work 1 DoneSignal, Work 1 EpilogueTimeout] (started (live True)) = Ret s' \<and>
         chanDoneLog (mgr s') = Some Closed \<and> at (worker1 s') = Exited \<and>
         at (worker2 s') = AtSelect \<and>
         (\<exists>s''. act (Work 2 DoneSignal) s' = Ret s'' \<and>
                (case chanLog (mgr s'') of Some c \<Rightarrow> length (buf c) | None \<Rightarrow> 0) =
                (case chanLog (mgr s') of Some c \<Rightarrow> length (buf c) | None \<Rightarrow> 0) + 2)"
    by (simp add: machine_defs)
  show "run [Work 1 (Connected 0), Work 2 (Connected 1), Close,
        Work 1 DoneSignal, Work 1 EpilogueTimeout,
        Work 2 DoneSignal, Work 2 EpilogueTimeout] (started (live True)) = Panic"
    by (simp add: machine_defs)
  show "logListener [TakeDoneLog, TakeEntry]
     ((closed True)\<lparr>chanDoneLog := Some Closed,
                     chanLog := Some \<lparr>buf = [\<lparr>socketID = 2, message = ''Shutting down apns service'' @ [CHR 0x0A]\<rparr>], cap = 100\<rparr>\<rparr>,
      False) =
     Ret ((closed True)\<lparr>chanDoneLog := Some Closed,
                     chanLog := Some \<lparr>buf = [\<lparr>socketID = 2, message = ''Shutting down apns service'' @ [CHR 0x0A]\<rparr>], cap = 100\<rparr>\<rparr>,
          True)"
    by (simp add: logListener_pass_def closed_def live_def)
qed

end
